theory Spec2Isabelle
  imports Complex_Main "HOL-Library.AList"
begin

section \<open>The conversion cache (src/services/cache.js)\<close>

text \<open>
  \<open>CacheService\<close> keeps a JavaScript \<open>Map\<close> from keys to items \<open>{value, expiresAt}\<close>
  and four counters. A \<open>Map\<close> iterates in insertion order, \<open>Map.set\<close> on a key that is
  present replaces the item in place and \<open>Map.delete\<close> removes it, so the map is an
  association list with \<open>AList.update\<close> and \<open>AList.delete\<close>. Times are milliseconds
  (\<open>Date.now()\<close>), read by the caller of each operation and passed in as \<open>now\<close>;
  time-to-live values are finite numbers of milliseconds.
\<close>

record cache_stats =
  hits :: nat
  misses :: nat
  stored :: nat
  evicted :: nat

record 'v cache_item =
  item_value :: 'v
  expiresAt :: nat

record 'v cache_service =
  cache :: "(string \<times> 'v cache_item) list"
  stats :: cache_stats
  maxSize :: nat
  defaultTtl :: nat

text \<open>The constructor: an empty map, zeroed counters, 1000 items, one hour.\<close>

definition new_cache :: "'v cache_service" where
  "new_cache =
     \<lparr>cache = [], stats = \<lparr>hits = 0, misses = 0, stored = 0, evicted = 0\<rparr>,
      maxSize = 1000, defaultTtl = 60 * 60 * 1000\<rparr>"

text \<open>
  \<open>evictOldest\<close>: the loop keeps the first key whose \<open>expiresAt\<close> is strictly below
  the best seen so far, starting from \<open>null\<close> and \<open>Infinity\<close> (\<open>None\<close> here). The
  final test is \<open>if (oldestKey)\<close>, a truthiness test: it fails for \<open>null\<close> and for the
  empty string.
\<close>

definition oldest_step ::
  "string option \<times> nat option \<Rightarrow> string \<times> 'v cache_item \<Rightarrow> string option \<times> nat option" where
  "oldest_step acc e =
     (case snd acc of
        None \<Rightarrow> (Some (fst e), Some (expiresAt (snd e)))
      | Some oldestExpiry \<Rightarrow>
          if expiresAt (snd e) < oldestExpiry then (Some (fst e), Some (expiresAt (snd e)))
          else acc)"

definition find_oldest :: "(string \<times> 'v cache_item) list \<Rightarrow> string option \<times> nat option" where
  "find_oldest es = foldl oldest_step (None, None) es"

definition evictOldest :: "'v cache_service \<Rightarrow> 'v cache_service" where
  "evictOldest c =
     (case fst (find_oldest (cache c)) of
        None \<Rightarrow> c
      | Some oldestKey \<Rightarrow>
          if oldestKey = [] then c
          else c\<lparr>cache := AList.delete oldestKey (cache c),
                 stats := (stats c)\<lparr>evicted := Suc (evicted (stats c))\<rparr>\<rparr>)"

text \<open>\<open>set(key, value, ttl = this.defaultTtl)\<close>; \<open>None\<close> is the omitted \<open>ttl\<close>.\<close>

definition set_cache ::
  "nat \<Rightarrow> string \<Rightarrow> 'v \<Rightarrow> nat option \<Rightarrow> 'v cache_service \<Rightarrow> 'v cache_service" where
  "set_cache now key v ttl c =
     (let c1 = (if maxSize c \<le> length (cache c) then evictOldest c else c);
          t = (case ttl of None \<Rightarrow> defaultTtl c | Some n \<Rightarrow> n)
      in c1\<lparr>cache := AList.update key \<lparr>item_value = v, expiresAt = now + t\<rparr> (cache c1),
             stats := (stats c1)\<lparr>stored := Suc (stored (stats c1))\<rparr>\<rparr>)"

text \<open>\<open>get(key)\<close> returns the stored value, or \<open>null\<close> (\<open>None\<close>) on a miss.\<close>

definition get :: "nat \<Rightarrow> string \<Rightarrow> 'v cache_service \<Rightarrow> 'v option \<times> 'v cache_service" where
  "get now key c =
     (case map_of (cache c) key of
        None \<Rightarrow> (None, c\<lparr>stats := (stats c)\<lparr>misses := Suc (misses (stats c))\<rparr>\<rparr>)
      | Some item \<Rightarrow>
          if expiresAt item < now
          then (None, c\<lparr>cache := AList.delete key (cache c),
                         stats := (stats c)\<lparr>misses := Suc (misses (stats c)),
                                             evicted := Suc (evicted (stats c))\<rparr>\<rparr>)
          else (Some (item_value item),
                c\<lparr>stats := (stats c)\<lparr>hits := Suc (hits (stats c))\<rparr>\<rparr>))"

text \<open>\<open>runGarbageCollection\<close>: every item with \<open>expiresAt < now\<close> is deleted and counted.\<close>

definition runGarbageCollection :: "nat \<Rightarrow> 'v cache_service \<Rightarrow> 'v cache_service" where
  "runGarbageCollection now c =
     c\<lparr>cache := filter (\<lambda>e. \<not> expiresAt (snd e) < now) (cache c),
       stats := (stats c)\<lparr>evicted := evicted (stats c)
                  + length (filter (\<lambda>e. expiresAt (snd e) < now) (cache c))\<rparr>\<rparr>"

definition clear :: "'v cache_service \<Rightarrow> 'v cache_service" where
  "clear c = c\<lparr>cache := []\<rparr>"

text \<open>
  The states the service keeps its cache in: at most \<open>maxSize\<close> items, a positive
  limit, one item per key as in a \<open>Map\<close>, and no item under the empty string. Every key
  the service stores comes from \<open>generateKey\<close> and starts with its prefix.
\<close>

definition cache_inv :: "'v cache_service \<Rightarrow> bool" where
  "cache_inv c =
     (length (cache c) \<le> maxSize c \<and> 0 < maxSize c \<and> distinct (map fst (cache c))
      \<and> [] \<notin> fst ` set (cache c))"

section \<open>JavaScript values, objects and errors\<close>

text \<open>
  Texts are sequences of UTF-16 code units; the model covers the code units below 256,
  which \<open>char\<close> holds. An object is the list of its own properties in insertion order
  (no property name used here is an array index, which JavaScript would order first).
\<close>

datatype jsval =
    JUndefined
  | JNull
  | JBool bool
  | JNum int
  | JStr string
  | JArr "jsval list"
  | JObj "(string \<times> jsval) list"

type_synonym jsobject = "(string \<times> jsval) list"

fun truthy :: "jsval \<Rightarrow> bool" where
  "truthy JUndefined = False"
| "truthy JNull = False"
| "truthy (JBool b) = b"
| "truthy (JNum n) = (n \<noteq> 0)"
| "truthy (JStr s) = (s \<noteq> [])"
| "truthy (JArr xs) = True"
| "truthy (JObj ps) = True"

text \<open>\<open>typeof v === 'object'\<close> holds of \<open>null\<close>, arrays and objects.\<close>

fun typeof_object :: "jsval \<Rightarrow> bool" where
  "typeof_object JNull = True"
| "typeof_object (JArr xs) = True"
| "typeof_object (JObj ps) = True"
| "typeof_object v = False"

definition digit_char :: "nat \<Rightarrow> char" where
  "digit_char n = char_of (48 + n)"

fun dec :: "nat \<Rightarrow> string" where
  "dec n = (if n < 10 then [digit_char n] else dec (n div 10) @ [digit_char (n mod 10)])"

declare dec.simps [simp del]

text \<open>\<open>Object.keys\<close>: own property names; an array's are its indices.\<close>

fun object_keys :: "jsval \<Rightarrow> string list" where
  "object_keys (JObj ps) = map fst ps"
| "object_keys (JArr xs) = map dec [0..<length xs]"
| "object_keys v = []"

text \<open>
  \<open>name in options\<close> and \<open>options[name]\<close>, for the eight option names: none of them is
  an index or a member of \<open>Object.prototype\<close> or \<open>Array.prototype\<close>, so only own
  properties of a plain object answer.
\<close>

fun has_prop :: "string \<Rightarrow> jsval \<Rightarrow> bool" where
  "has_prop k (JObj ps) = (k \<in> fst ` set ps)"
| "has_prop k v = False"

fun get_prop :: "jsval \<Rightarrow> string \<Rightarrow> jsval" where
  "get_prop (JObj ps) k = (case map_of ps k of None \<Rightarrow> JUndefined | Some v \<Rightarrow> v)"
| "get_prop v k = JUndefined"

text \<open>
  Object spread \<open>{...a, ...b}\<close>: the properties of \<open>a\<close>, then each property of \<open>b\<close> in
  turn, replacing the value in place when the name is present and appended otherwise.
\<close>

definition spread :: "jsobject \<Rightarrow> jsobject \<Rightarrow> jsobject" where
  "spread a b = foldl (\<lambda>acc p. AList.update (fst p) (snd p) acc) a b"

fun join :: "string \<Rightarrow> string list \<Rightarrow> string" where
  "join sep [] = []"
| "join sep [x] = x"
| "join sep (x # y # ys) = x @ sep @ join sep (y # ys)"

text \<open>src/utils/errors.js: \<open>AppError\<close> and the two factories the services use.\<close>

record app_error =
  message :: string
  statusCode :: nat
  errorCode :: string

definition validationError :: "string \<Rightarrow> string \<Rightarrow> app_error" where
  "validationError msg code = \<lparr>message = msg, statusCode = 422, errorCode = code\<rparr>"

definition internal :: "string \<Rightarrow> string \<Rightarrow> app_error" where
  "internal msg code = \<lparr>message = msg, statusCode = 500, errorCode = code\<rparr>"

text \<open>
  What a \<open>try\<close> block can catch: an \<open>AppError\<close> (\<open>isOperational\<close> is true) or any other
  exception, of which only the message is kept.
\<close>

datatype thrown = Operational app_error | Other string

section \<open>Option validation (src/services/validator.js)\<close>

definition allowedOptions :: "string list" where
  "allowedOptions =
     [''autoRename'', ''autoRenameStrict'', ''blacklist'', ''clean'', ''greedy'',
      ''processUrls'', ''stringMap'', ''useCalc'']"

definition boolOptions :: "string list" where
  "boolOptions =
     [''autoRename'', ''autoRenameStrict'', ''clean'', ''greedy'', ''processUrls'', ''useCalc'']"

text \<open>The loop over the boolean options; it throws at the first one of another type.\<close>

fun validate_bools :: "string list \<Rightarrow> jsval \<Rightarrow> jsobject \<Rightarrow> app_error + jsobject" where
  "validate_bools [] options validatedOptions = Inr validatedOptions"
| "validate_bools (boolOption # others) options validatedOptions =
     (if has_prop boolOption options then
        (case get_prop options boolOption of
           JBool b \<Rightarrow> validate_bools others options
                        (AList.update boolOption (JBool b) validatedOptions)
         | _ \<Rightarrow> Inl (validationError
                       (''Option '' @ [CHR 0x27] @ boolOption @ [CHR 0x27] @ '' must be a boolean'')
                       ''INVALID_OPTION_TYPE''))
      else validate_bools others options validatedOptions)"

definition validate_blacklist :: "jsval \<Rightarrow> jsobject \<Rightarrow> app_error + jsobject" where
  "validate_blacklist options validatedOptions =
     (if has_prop ''blacklist'' options then
        (if \<not> truthy (get_prop options ''blacklist'')
            \<or> \<not> typeof_object (get_prop options ''blacklist'')
         then Inl (validationError
                     (''Option '' @ [CHR 0x27] @ ''blacklist'' @ [CHR 0x27] @ '' must be an object'')
                     ''INVALID_OPTION_TYPE'')
         else Inr (AList.update ''blacklist'' (get_prop options ''blacklist'') validatedOptions))
      else Inr validatedOptions)"

definition validate_stringMap :: "jsval \<Rightarrow> jsobject \<Rightarrow> app_error + jsobject" where
  "validate_stringMap options validatedOptions =
     (if has_prop ''stringMap'' options then
        (case get_prop options ''stringMap'' of
           JArr xs \<Rightarrow> Inr (AList.update ''stringMap'' (JArr xs) validatedOptions)
         | _ \<Rightarrow> Inl (validationError
                       (''Option '' @ [CHR 0x27] @ ''stringMap'' @ [CHR 0x27] @ '' must be an array'')
                       ''INVALID_OPTION_TYPE''))
      else Inr validatedOptions)"

definition validateRtlcssOptions :: "jsval \<Rightarrow> app_error + jsobject" where
  "validateRtlcssOptions options =
     (if \<not> truthy options \<or> \<not> typeof_object options then Inr []
      else
        let invalidOptions = filter (\<lambda>key. key \<notin> set allowedOptions) (object_keys options)
        in if invalidOptions \<noteq> []
           then Inl (validationError
                       (''Invalid RTLCSS options: '' @ join '', '' invalidOptions)
                       ''INVALID_OPTIONS'')
           else
             (case validate_bools boolOptions options [] of
                Inl e \<Rightarrow> Inl e
              | Inr v1 \<Rightarrow>
                  (case validate_blacklist options v1 of
                     Inl e \<Rightarrow> Inl e
                   | Inr v2 \<Rightarrow> validate_stringMap options v2)))"

section \<open>Configuration (config/default.js)\<close>

definition defaultOptions :: jsobject where
  "defaultOptions =
     [(''autoRename'', JBool False),
      (''autoRenameStrict'', JBool False),
      (''blacklist'', JObj []),
      (''clean'', JBool True),
      (''greedy'', JBool False),
      (''processUrls'', JBool False),
      (''stringMap'', JArr []),
      (''useCalc'', JBool False)]"

section \<open>The regular expressions of rtlToLtr (services/convert.js)\<close>

text \<open>
  The conversion service, \<open>services/convert.js\<close>, is the module that starts at line 104
  of src/services/validator.js as the sources come.
  \<open>rtlToLtr\<close> rewrites its input with fifteen \<open>String.replace\<close> calls, each with a
  regular expression under the flags \<open>g\<close> and \<open>i\<close>. The expressions are built from
  four forms only: a literal, \<open>\s*\<close>, \<open>\b\<close> and one capturing alternative of literals.
  \<open>rmatch\<close> matches such an expression at the start of a text as the JavaScript matcher
  does: \<open>\s*\<close> takes as many white-space characters as it can and gives them back one by
  one if the rest fails, alternatives are tried from left to right. Its result is the
  text of the capture, the last character before the end of the match and the text left.
\<close>

text \<open>\<open>\s\<close> among the code units below 256.\<close>

definition is_space :: "char \<Rightarrow> bool" where
  "is_space c =
     (c \<in> set [CHR 0x09, CHR 0x0A, CHR 0x0B, CHR 0x0C, CHR 0x0D, CHR 0x20, CHR 0xA0])"

text \<open>\<open>\w\<close> is \<open>[A-Za-z0-9_]\<close>.\<close>

definition is_word_char :: "char \<Rightarrow> bool" where
  "is_word_char c =
     (let n = (of_char c :: nat)
      in (48 \<le> n \<and> n \<le> 57) \<or> (65 \<le> n \<and> n \<le> 90) \<or> n = 95 \<or> (97 \<le> n \<and> n \<le> 122))"

text \<open>
  Under the flag \<open>i\<close> (without \<open>u\<close>) two code units match when their upper-case forms
  agree, and a code unit from 128 on never folds onto an ASCII one. All literals here are
  ASCII, so only the 26 letters fold.
\<close>

definition lower :: "char \<Rightarrow> char" where
  "lower c = (let n = (of_char c :: nat) in if 65 \<le> n \<and> n \<le> 90 then char_of (n + 32) else c)"

datatype atom = Lit string | Spaces | WordB | Group "string list"

fun lit :: "string \<Rightarrow> char option \<Rightarrow> string \<Rightarrow> (char option \<times> string) option" where
  "lit [] prev s = Some (prev, s)"
| "lit (p # ps) prev [] = None"
| "lit (p # ps) prev (c # cs) = (if lower p = lower c then lit ps (Some c) cs else None)"

definition at_boundary :: "char option \<Rightarrow> string \<Rightarrow> bool" where
  "at_boundary prev s =
     ((case prev of None \<Rightarrow> False | Some c \<Rightarrow> is_word_char c)
        \<noteq> (case s of [] \<Rightarrow> False | c # cs \<Rightarrow> is_word_char c))"

text \<open>The measure under which \<open>rmatch\<close> terminates: an alternative weighs its branches.\<close>

fun weight :: "atom \<Rightarrow> nat" where
  "weight (Group ls) = 2 + length ls"
| "weight a = 1"

function (sequential) rmatch ::
  "atom list \<Rightarrow> char option \<Rightarrow> string \<Rightarrow> (string \<times> char option \<times> string) option" where
  "rmatch [] prev s = Some ([], prev, s)"
| "rmatch (Lit l # as) prev s =
     (case lit l prev s of
        None \<Rightarrow> None
      | Some (prev', s') \<Rightarrow> rmatch as prev' s')"
| "rmatch (Spaces # as) prev [] = rmatch as prev []"
| "rmatch (Spaces # as) prev (c # cs) =
     (if is_space c then
        (case rmatch (Spaces # as) (Some c) cs of
           Some r \<Rightarrow> Some r
         | None \<Rightarrow> rmatch as prev (c # cs))
      else rmatch as prev (c # cs))"
| "rmatch (WordB # as) prev s = (if at_boundary prev s then rmatch as prev s else None)"
| "rmatch (Group [] # as) prev s = None"
| "rmatch (Group (l # ls) # as) prev s =
     (case rmatch (Lit l # as) prev s of
        Some (cap, prev', s') \<Rightarrow> Some (take (length l) s, prev', s')
      | None \<Rightarrow> rmatch (Group ls # as) prev s)"
  by pat_completeness auto
termination
  by (relation "measures [\<lambda>(as, prev, s). sum_list (map weight as), \<lambda>(as, prev, s). length s]")
     auto

text \<open>A replacement string: literal text and \<open>$1\<close>.\<close>

datatype piece = Text string | Ref

fun expand :: "piece list \<Rightarrow> string \<Rightarrow> string" where
  "expand [] cap = []"
| "expand (Text t # ps) cap = t @ expand ps cap"
| "expand (Ref # ps) cap = cap @ expand ps cap"

text \<open>
  \<open>text.replace(re, replacement)\<close> for a global \<open>re\<close>: matches are looked for from left
  to right, the search resuming where the last match ended (one code unit further after
  an empty match).
\<close>

fun replace_all :: "atom list \<Rightarrow> piece list \<Rightarrow> char option \<Rightarrow> string \<Rightarrow> string" where
  "replace_all re rp prev [] =
     (case rmatch re prev [] of None \<Rightarrow> [] | Some (cap, prev', s') \<Rightarrow> expand rp cap)"
| "replace_all re rp prev (c # cs) =
     (case rmatch re prev (c # cs) of
        None \<Rightarrow> c # replace_all re rp (Some c) cs
      | Some (cap, prev', s') \<Rightarrow>
          if length s' < length (c # cs) then expand rp cap @ replace_all re rp prev' s'
          else expand rp cap @ c # replace_all re rp (Some c) cs)"

definition swaps :: "(atom list \<times> piece list) list" where
  "swaps =
     [([Lit ''direction'', Spaces, Lit '':'', Spaces, Lit ''rtl'', Spaces, Lit '';''],
         [Text ''direction: __LTR_PLACEHOLDER__;'']),
      ([Lit ''direction'', Spaces, Lit '':'', Spaces, Lit ''ltr'', Spaces, Lit '';''],
         [Text ''direction: rtl;'']),
      ([Lit ''direction'', Spaces, Lit '':'', Spaces, Lit ''__LTR_PLACEHOLDER__'', Spaces, Lit '';''],
         [Text ''direction: ltr;'']),
      ([Group [''margin'', ''padding'', ''border''], Lit ''-left''],
         [Ref, Text ''-__RIGHT_PLACEHOLDER__'']),
      ([Group [''margin'', ''padding'', ''border''], Lit ''-right''],
         [Ref, Text ''-left'']),
      ([Group [''margin'', ''padding'', ''border''], Lit ''-__RIGHT_PLACEHOLDER__''],
         [Ref, Text ''-right'']),
      ([Lit '':'', Spaces, Lit ''left'', WordB],
         [Text '': __RIGHT_PLACEHOLDER__'']),
      ([Lit '':'', Spaces, Lit ''right'', WordB],
         [Text '': left'']),
      ([Lit '':'', Spaces, Lit ''__RIGHT_PLACEHOLDER__'', WordB],
         [Text '': right'']),
      ([Lit ''float'', Spaces, Lit '':'', Spaces, Lit ''left'', Spaces, Lit '';''],
         [Text ''float: __RIGHT_PLACEHOLDER__;'']),
      ([Lit ''float'', Spaces, Lit '':'', Spaces, Lit ''right'', Spaces, Lit '';''],
         [Text ''float: left;'']),
      ([Lit ''float'', Spaces, Lit '':'', Spaces, Lit ''__RIGHT_PLACEHOLDER__'', Spaces, Lit '';''],
         [Text ''float: right;'']),
      ([Lit ''text-align'', Spaces, Lit '':'', Spaces, Lit ''left'', Spaces, Lit '';''],
         [Text ''text-align: __RIGHT_PLACEHOLDER__;'']),
      ([Lit ''text-align'', Spaces, Lit '':'', Spaces, Lit ''right'', Spaces, Lit '';''],
         [Text ''text-align: left;'']),
      ([Lit ''text-align'', Spaces, Lit '':'', Spaces, Lit ''__RIGHT_PLACEHOLDER__'', Spaces, Lit '';''],
         [Text ''text-align: right;''])]"

text \<open>\<open>preprocessedCss\<close>: the fifteen replacements, in the order of the source.\<close>

definition preprocess :: "string \<Rightarrow> string" where
  "preprocess css = foldl (\<lambda>text sw. replace_all (fst sw) (snd sw) None text) css swaps"

section \<open>The rewriting engine\<close>

text \<open>
  Modelled from the spec: \<open>rtlcss.process\<close>, the engine both entry points call, is the
  third-party package \<open>rtlcss\<close> and is not under src/. The definitions of this section
  follow sections 3, 4.2 and 4.3 of the specification for texts without comments:
  selectors and braces are opaque, each declaration is visited once, property-name rules
  run before value rules, a declaration matches at most one rule, and a declaration that
  no rule changes is passed through byte for byte. The rules modelled are the suffix and
  corner swaps in property names (with the properties \<open>left\<close> and \<open>right\<close>, as the
  repository's conversion test tool expects), the reordering of four-component box and
  radius shorthands, and the keyword swaps \<open>left\<close>/\<open>right\<close> and \<open>ltr\<close>/\<open>rtl\<close>.
  Directive comments, the numeric rules (percentages, \<open>translate\<close>) and the options
  are not modelled. White space between the components of a rewritten value is
  normalised to one blank.
\<close>

definition swap_lr :: "string \<Rightarrow> string" where
  "swap_lr t = (if t = ''left'' then ''right'' else if t = ''right'' then ''left'' else t)"

definition swap_dir :: "string \<Rightarrow> string" where
  "swap_dir t = (if t = ''ltr'' then ''rtl'' else if t = ''rtl'' then ''ltr'' else t)"

text \<open>The parts of a property name between hyphens.\<close>

definition seg_step :: "char \<Rightarrow> string \<times> string list \<Rightarrow> string \<times> string list" where
  "seg_step c acc = (if c = CHR ''-'' then ([], fst acc # snd acc) else (c # fst acc, snd acc))"

definition segments :: "string \<Rightarrow> string list" where
  "segments s = (let acc = foldr seg_step s ([], []) in fst acc # snd acc)"

definition rename_property :: "string \<Rightarrow> string" where
  "rename_property name = join ''-'' (map swap_lr (segments name))"

text \<open>The components of a value: its maximal runs without white space.\<close>

definition comp_step :: "char \<Rightarrow> string \<times> string list \<Rightarrow> string \<times> string list" where
  "comp_step c acc =
     (if is_space c then ([], if fst acc = [] then snd acc else fst acc # snd acc)
      else (c # fst acc, snd acc))"

definition components :: "string \<Rightarrow> string list" where
  "components s =
     (let acc = foldr comp_step s ([], []) in if fst acc = [] then snd acc else fst acc # snd acc)"

definition box_properties :: "string list" where
  "box_properties = [''margin'', ''padding'', ''border-width'']"

text \<open>
  Modelled from the spec: the value rules of the rule table (section 4.2) on the
  components of a value, for a property whose name no rule changes.
\<close>

fun value_rule :: "string \<Rightarrow> string list \<Rightarrow> string list" where
  "value_rule name [a, b, c, d] =
     (if name \<in> set box_properties then [a, d, c, b]
      else if name = ''border-radius'' then [b, a, d, c]
      else if name = ''direction'' then map swap_dir [a, b, c, d]
      else map swap_lr [a, b, c, d])"
| "value_rule name comps =
     (if name = ''direction'' then map swap_dir comps else map swap_lr comps)"

text \<open>
  Modelled from the spec: the transformer on one declaration (section 4.3), given as the
  text between two structural characters: white space, the property name, white space,
  a colon, white space, the value, white space.
\<close>

definition convert_decl :: "string \<Rightarrow> string" where
  "convert_decl raw =
     (case dropWhile (\<lambda>c. c \<noteq> CHR '':'') raw of
        [] \<Rightarrow> raw
      | colon # back \<Rightarrow>
          let front = takeWhile (\<lambda>c. c \<noteq> CHR '':'') raw;
              ws1 = takeWhile is_space front;
              name = takeWhile (\<lambda>c. \<not> is_space c) (dropWhile is_space front);
              ws2 = dropWhile (\<lambda>c. \<not> is_space c) (dropWhile is_space front);
              ws3 = takeWhile is_space back;
              body = dropWhile is_space back;
              ws4 = rev (takeWhile is_space (rev body));
              comps = components body
          in if rename_property name \<noteq> name
             then ws1 @ rename_property name @ ws2 @ colon # back
             else if value_rule name comps = comps then raw
             else ws1 @ name @ ws2 @ colon # ws3 @ join '' '' (value_rule name comps) @ ws4)"

text \<open>
  The scan: \<open>chunk\<close> holds, reversed, the text read since the last structural
  character. Text before an opening brace is a selector; text before a semicolon, a
  closing brace or the end is a declaration.
\<close>

fun scan :: "string \<Rightarrow> string \<Rightarrow> string" where
  "scan chunk [] = convert_decl (rev chunk)"
| "scan chunk (c # cs) =
     (if c = CHR 0x7B then rev chunk @ c # scan [] cs
      else if c = CHR '';'' \<or> c = CHR 0x7D then convert_decl (rev chunk) @ c # scan [] cs
      else scan (c # chunk) cs)"

text \<open>
  Modelled from the spec: \<open>rtlcss.process(css, options)\<close> of the package \<open>rtlcss\<close>, absent
  from src/, as the scan of the text with the rule table above; the options are not
  consulted.
\<close>

definition rtlcss_process :: "string \<Rightarrow> string" where
  "rtlcss_process css = scan [] css"

text \<open>
  A component of a value as the rule table sees it: a non-empty run of characters with no
  white space and none of the characters that end a declaration or open a block.
\<close>

definition plain :: "string \<Rightarrow> bool" where
  "plain tok =
     (tok \<noteq> [] \<and>
      list_all (\<lambda>c. \<not> is_space c \<and> c \<noteq> CHR '';'' \<and> c \<noteq> CHR 0x7B \<and> c \<noteq> CHR 0x7D) tok)"

section \<open>The conversion service (services/convert.js)\<close>

text \<open>
  What the service reaches outside itself is explicit. The \<open>env\<close> holds the functions it
  calls from Node and from packages: \<open>fs.readFile\<close>, \<open>rtlcss.process\<close> (either may
  throw; \<open>Inl\<close> carries the message), the md5 digest in hexadecimal and \<open>JSON.stringify\<close>.
  The \<open>timing\<close> holds the clock readings of one call. The \<open>world\<close> is the state that
  outlives a call: the cache singleton and the calls received by
  \<open>statsService.recordConversion\<close>, which catches its own errors and never throws. The
  monitoring service is not under src/; its calls return nothing the service uses and
  are left out.
\<close>

record conv_stats =
  originalSize :: nat
  convertedSize :: nat
  processingTimeMs :: int
  cached :: "bool option"

record result =
  converted :: string
  result_stats :: conv_stats

record usage =
  usage_apiKey :: string
  conversionType :: string
  usage_originalSize :: nat
  usage_convertedSize :: nat
  usage_processingTimeMs :: real

record world =
  cacheService :: "result cache_service"
  usageStats :: "usage list"

record env =
  readFile :: "string \<Rightarrow> string + string"
  process :: "string \<Rightarrow> jsobject \<Rightarrow> string + string"
  md5hex :: "string \<Rightarrow> string"
  stringify :: "jsval \<Rightarrow> string"

record timing =
  now_get :: nat
  now_set :: nat
  hrtime :: "nat \<times> nat"

record request =
  css :: jsval
  filePath :: "string option"
  rtlcssOptions :: jsobject
  apiKey :: "string option"

text \<open>\<open>CacheService.generateKey(prefix, data)\<close>.\<close>

definition generateKey :: "env \<Rightarrow> string \<Rightarrow> jsval \<Rightarrow> string" where
  "generateKey e prefix data =
     (case data of
        JStr s \<Rightarrow> prefix @ '':'' @ s
      | _ \<Rightarrow> prefix @ '':'' @ md5hex e (stringify e data))"

text \<open>\<open>Buffer.byteLength(text, 'utf8')\<close>: a code unit below 128 is one byte, the others here two.\<close>

definition byteLength :: "string \<Rightarrow> nat" where
  "byteLength text = sum_list (map (\<lambda>c. if (of_char c :: nat) < 128 then 1 else 2) text)"

text \<open>
  \<open>(seconds * 1000) + (nanoseconds / 1000000)\<close> and \<open>Math.round\<close>, which rounds a half
  upwards; the arithmetic is exact here, the rounding of doubles is not modelled.
\<close>

definition elapsed_ms :: "nat \<times> nat \<Rightarrow> real" where
  "elapsed_ms hr = real (fst hr) * 1000 + real (snd hr) / 1000000"

definition math_round :: "real \<Rightarrow> int" where
  "math_round x = \<lfloor>x + 1 / 2\<rfloor>"

text \<open>\<open>if (!css && filePath) css = await fs.readFile(filePath, 'utf8')\<close>.\<close>

definition load_css :: "env \<Rightarrow> request \<Rightarrow> string + jsval" where
  "load_css e req =
     (case filePath req of
        None \<Rightarrow> Inr (css req)
      | Some path \<Rightarrow>
          if \<not> truthy (css req) \<and> path \<noteq> [] then
            (case readFile e path of Inl err \<Rightarrow> Inl err | Inr text \<Rightarrow> Inr (JStr text))
          else Inr (css req))"

text \<open>
  \<open>if (!css || typeof css !== 'string') throw ...\<close>: \<open>as_text\<close> is the text that passes
  the test, \<open>None\<close> when the exception is thrown.
\<close>

fun as_text :: "jsval \<Rightarrow> string option" where
  "as_text (JStr s) = (if s = [] then None else Some s)"
| "as_text v = None"

definition invalid_css :: app_error where
  "invalid_css = validationError ''No valid CSS content provided'' ''INVALID_CSS''"

text \<open>The \<open>catch\<close> block: an operational error is rethrown, any other is wrapped.\<close>

fun rethrow :: "thrown \<Rightarrow> app_error" where
  "rethrow (Operational err) = err"
| "rethrow (Other msg) = internal ''Error processing CSS conversion'' ''CONVERSION_ERROR''"

text \<open>\<open>if (apiKey) await statsService.recordConversion({...})\<close>.\<close>

definition recordConversion :: "string option \<Rightarrow> string \<Rightarrow> nat \<Rightarrow> nat \<Rightarrow> real \<Rightarrow> world \<Rightarrow> world" where
  "recordConversion key kind osize csize ms w =
     (case key of
        None \<Rightarrow> w
      | Some k \<Rightarrow>
          if k = [] then w
          else w\<lparr>usageStats := usageStats w @
                 [\<lparr>usage_apiKey = k, conversionType = kind, usage_originalSize = osize,
                   usage_convertedSize = csize, usage_processingTimeMs = ms\<rparr>]\<rparr>)"

definition merged_options :: "request \<Rightarrow> jsobject" where
  "merged_options req = spread defaultOptions (rtlcssOptions req)"

definition cache_key :: "env \<Rightarrow> string \<Rightarrow> jsobject \<Rightarrow> string" where
  "cache_key e text options =
     generateKey e ''ltr2rtl'' (JObj [(''css'', JStr text), (''options'', JObj options)])"

definition ltrToRtl :: "env \<Rightarrow> timing \<Rightarrow> request \<Rightarrow> world \<Rightarrow> (app_error + result) \<times> world" where
  "ltrToRtl e t req w =
     (case load_css e req of
        Inl err \<Rightarrow> (Inl (rethrow (Other err)), w)
      | Inr c \<Rightarrow>
          (case as_text c of
             None \<Rightarrow> (Inl (rethrow (Operational invalid_css)), w)
           | Some text \<Rightarrow>
               let options = merged_options req;
                   cacheKey = cache_key e text options;
                   looked = get (now_get t) cacheKey (cacheService w);
                   w1 = w\<lparr>cacheService := snd looked\<rparr>
               in (case fst looked of
                     Some cachedResult \<Rightarrow>
                       (Inr cachedResult,
                        recordConversion (apiKey req) ''ltr_to_rtl''
                          (originalSize (result_stats cachedResult))
                          (convertedSize (result_stats cachedResult)) 0 w1)
                   | None \<Rightarrow>
                       (case process e text options of
                          Inl err \<Rightarrow> (Inl (rethrow (Other err)), w1)
                        | Inr convertedCss \<Rightarrow>
                            let res = \<lparr>converted = convertedCss,
                                       result_stats =
                                         \<lparr>originalSize = byteLength text,
                                          convertedSize = byteLength convertedCss,
                                          processingTimeMs = math_round (elapsed_ms (hrtime t)),
                                          cached = Some False\<rparr>\<rparr>;
                                w2 = w1\<lparr>cacheService :=
                                          set_cache (now_set t) cacheKey res None (cacheService w1)\<rparr>
                            in (Inr res,
                                recordConversion (apiKey req) ''ltr_to_rtl''
                                  (byteLength text) (byteLength convertedCss)
                                  (elapsed_ms (hrtime t)) w2)))))"

definition rtlToLtr :: "env \<Rightarrow> timing \<Rightarrow> request \<Rightarrow> world \<Rightarrow> (app_error + result) \<times> world" where
  "rtlToLtr e t req w =
     (case load_css e req of
        Inl err \<Rightarrow> (Inl (rethrow (Other err)), w)
      | Inr c \<Rightarrow>
          (case as_text c of
             None \<Rightarrow> (Inl (rethrow (Operational invalid_css)), w)
           | Some text \<Rightarrow>
               let preprocessedCss = preprocess text;
                   options = merged_options req
               in (case process e preprocessedCss options of
                     Inl err \<Rightarrow> (Inl (rethrow (Other err)), w)
                   | Inr convertedCss \<Rightarrow>
                       (Inr \<lparr>converted = convertedCss,
                             result_stats =
                               \<lparr>originalSize = byteLength text,
                                convertedSize = byteLength convertedCss,
                                processingTimeMs = math_round (elapsed_ms (hrtime t)),
                                cached = None\<rparr>\<rparr>,
                        recordConversion (apiKey req) ''rtl_to_ltr''
                          (byteLength text) (byteLength convertedCss)
                          (elapsed_ms (hrtime t)) w))))"

text \<open>The text a call returned, \<open>None\<close> when it threw.\<close>

definition converted_text :: "(app_error + result) \<times> world \<Rightarrow> string option" where
  "converted_text r = (case fst r of Inl err \<Rightarrow> None | Inr res \<Rightarrow> Some (converted res))"

section \<open>A concrete environment and concrete states\<close>

text \<open>
  For closed examples: an environment without files whose engine is the one modelled
  above. \<open>json_text\<close> stands in for \<open>JSON.stringify\<close> (no escapes) and the identity for
  the digest, under which, as with md5 in practice, different texts have different keys.
\<close>

primrec json_text :: "jsval \<Rightarrow> string" where
  "json_text JUndefined = ''undefined''"
| "json_text JNull = ''null''"
| "json_text (JBool b) = (if b then ''true'' else ''false'')"
| "json_text (JNum n) = (if n < 0 then ''-'' @ dec (nat (- n)) else dec (nat n))"
| "json_text (JStr s) = [CHR 0x22] @ s @ [CHR 0x22]"
| "json_text (JArr xs) = ''['' @ join '','' (map json_text xs) @ '']''"
| "json_text (JObj ps) =
     ''{'' @ join '',''
              (map (\<lambda>p. [CHR 0x22] @ fst p @ [CHR 0x22] @ '':'' @ snd p)
                   (map (map_prod id json_text) ps)) @ ''}''"

definition node_env :: env where
  "node_env =
     \<lparr>readFile = (\<lambda>path. Inl ''ENOENT''),
      process = (\<lambda>text options. Inr (rtlcss_process text)),
      md5hex = (\<lambda>text. text),
      stringify = json_text\<rparr>"

definition fresh :: world where
  "fresh = \<lparr>cacheService = new_cache, usageStats = []\<rparr>"

text \<open>
  A cache at its limit: a thousand items under keys of the service, the first of them
  expiring before all others.
\<close>

definition cache_at_limit :: "nat cache_service" where
  "cache_at_limit =
     \<lparr>cache = (''ltr2rtl:a'', \<lparr>item_value = 0, expiresAt = 1\<rparr>)
              # map (\<lambda>i. (''ltr2rtl:'' @ replicate (Suc i) CHR ''k'',
                          \<lparr>item_value = i, expiresAt = 3600000\<rparr>))
                    [0..<999],
      stats = \<lparr>hits = 0, misses = 1000, stored = 1000, evicted = 0\<rparr>,
      maxSize = 1000, defaultTtl = 3600000\<rparr>"

text \<open>
  A request that carries its text, the clock readings of a call, and two variants of
  the environment: one where every path holds the text \<open>a{}\<close>, one whose engine throws.
\<close>

definition css_request :: "string \<Rightarrow> request" where
  "css_request text = \<lparr>css = JStr text, filePath = None, rtlcssOptions = [], apiKey = None\<rparr>"

definition clock :: timing where
  "clock = \<lparr>now_get = 0, now_set = 0, hrtime = (0, 5000000)\<rparr>"

definition file_env :: env where
  "file_env = node_env\<lparr>readFile := (\<lambda>path. Inr ''a{}'')\<rparr>"

definition failing_env :: env where
  "failing_env = node_env\<lparr>process := (\<lambda>text options. Inl ''CssSyntaxError'')\<rparr>"

section \<open>Properties of the cache\<close>

text \<open>
  Claim C6 (no stale hit). Whenever \<open>get\<close> returns a value, that value is the one stored
  under the key and its \<open>expiresAt\<close> is not in the past; and for a key whose stored item
  has \<open>expiresAt\<close> before the current time (expired, not yet swept), \<open>get\<close> reports a
  miss, counts it, and leaves no item under that key.
\<close>

theorem get_no_stale_hit:
  "(\<forall>v. fst (get now key c) = Some v \<longrightarrow>
      (\<exists>item. map_of (cache c) key = Some item \<and> item_value item = v \<and> now \<le> expiresAt item))
   \<and> (\<forall>item. map_of (cache c) key = Some item \<and> expiresAt item < now \<longrightarrow>
        fst (get now key c) = None
        \<and> map_of (cache (snd (get now key c))) key = None
        \<and> misses (stats (snd (get now key c))) = Suc (misses (stats c))
        \<and> hits (stats (snd (get now key c))) = hits (stats c))"
  by (auto simp: get_def AList.delete_conv' split: option.splits if_splits)

theorem get_no_stale_hit_witness:
  "map_of (cache \<lparr>cache = [(''k'', \<lparr>item_value = (7::nat), expiresAt = 5\<rparr>)],
                   stats = \<lparr>hits = 0, misses = 0, stored = 1, evicted = 0\<rparr>,
                   maxSize = 1000, defaultTtl = 3600000\<rparr>) ''k''
     = Some \<lparr>item_value = 7, expiresAt = 5\<rparr>
   \<and> expiresAt \<lparr>item_value = (7::nat), expiresAt = 5\<rparr> < 6
   \<and> fst (get 6 ''k'' \<lparr>cache = [(''k'', \<lparr>item_value = (7::nat), expiresAt = 5\<rparr>)],
                   stats = \<lparr>hits = 0, misses = 0, stored = 1, evicted = 0\<rparr>,
                   maxSize = 1000, defaultTtl = 3600000\<rparr>) = None
   \<and> fst (get 5 ''k'' \<lparr>cache = [(''k'', \<lparr>item_value = (7::nat), expiresAt = 5\<rparr>)],
                   stats = \<lparr>hits = 0, misses = 0, stored = 1, evicted = 0\<rparr>,
                   maxSize = 1000, defaultTtl = 3600000\<rparr>) = Some 7"
  using get_no_stale_hit [of 6 "''k''"
      "\<lparr>cache = [(''k'', \<lparr>item_value = (7::nat), expiresAt = 5\<rparr>)],
        stats = \<lparr>hits = 0, misses = 0, stored = 1, evicted = 0\<rparr>,
        maxSize = 1000, defaultTtl = 3600000\<rparr>"]
  by (simp add: get_def)

subsection \<open>Eviction\<close>

lemma length_update:
  "length (AList.update k v al) = (if k \<in> fst ` set al then length al else Suc (length al))"
  by (induction al) auto

lemma find_oldest_result:
  "es \<noteq> [] \<Longrightarrow> \<exists>k item. find_oldest es = (Some k, Some (expiresAt item)) \<and> (k, item) \<in> set es
      \<and> (\<forall>e\<in>set es. expiresAt item \<le> expiresAt (snd e))"
proof (induction es rule: rev_induct)
  case Nil
  then show ?case by simp
next
  case (snoc x xs)
  show ?case
  proof (cases "xs = []")
    case True
    then show ?thesis by (cases x) (simp add: find_oldest_def oldest_step_def)
  next
    case False
    with snoc.IH obtain k item where h: "find_oldest xs = (Some k, Some (expiresAt item))"
      "(k, item) \<in> set xs" "\<forall>e\<in>set xs. expiresAt item \<le> expiresAt (snd e)" by blast
    show ?thesis
    proof (cases "expiresAt (snd x) < expiresAt item")
      case True
      with h have "find_oldest (xs @ [x]) = (Some (fst x), Some (expiresAt (snd x)))"
        by (simp add: find_oldest_def oldest_step_def)
      moreover have "\<forall>e\<in>set (xs @ [x]). expiresAt (snd x) \<le> expiresAt (snd e)"
        using True h(3) by auto
      ultimately show ?thesis by (intro exI[of _ "fst x"] exI[of _ "snd x"]) simp
    next
      case False
      with h have "find_oldest (xs @ [x]) = (Some k, Some (expiresAt item))"
        by (simp add: find_oldest_def oldest_step_def)
      moreover have "\<forall>e\<in>set (xs @ [x]). expiresAt item \<le> expiresAt (snd e)"
        using False h(3) by auto
      ultimately show ?thesis using h(2) by (intro exI[of _ k] exI[of _ item]) simp
    qed
  qed
qed

lemma length_delete_present:
  "(k, v) \<in> set al \<Longrightarrow> length (AList.delete k al) < length al"
  by (induction al) (auto simp: less_Suc_eq_le AList.length_delete_le)

section \<open>Properties of the conversion service\<close>

lemma as_text_None_iff: "as_text c = None \<longleftrightarrow> (\<forall>s. c = JStr s \<longrightarrow> s = [])"
  by (cases c) auto

text \<open>
  Claim C7 (input validation), as amended. Both entry points throw the validation error
  \<open>INVALID_CSS\<close> (status 422) whenever the content they end up with, that is the \<open>css\<close>
  argument or, when \<open>css\<close> is falsy and a \<open>filePath\<close> is given, the text read from that
  file, is not a non-empty string. The state returned is the state received: no cache
  lookup, no cache write, no usage record; and the result is the same for every engine.
\<close>

theorem invalid_css_rejected:
  assumes "load_css e req = Inr c" and "\<forall>s. c = JStr s \<longrightarrow> s = []"
  shows "ltrToRtl e t req w = (Inl invalid_css, w) \<and> rtlToLtr e t req w = (Inl invalid_css, w)
         \<and> statusCode invalid_css = 422 \<and> errorCode invalid_css = ''INVALID_CSS''"
proof -
  from assms(2) have "as_text c = None" by (simp add: as_text_None_iff)
  with assms(1) show ?thesis
    by (simp add: ltrToRtl_def rtlToLtr_def invalid_css_def validationError_def)
qed

theorem invalid_css_rejected_witness:
  "ltrToRtl node_env clock \<lparr>css = JNum 123, filePath = Some ''a.css'', rtlcssOptions = [], apiKey = None\<rparr> fresh
     = (Inl \<lparr>message = ''No valid CSS content provided'', statusCode = 422, errorCode = ''INVALID_CSS''\<rparr>, fresh)
   \<and> rtlToLtr node_env clock \<lparr>css = JNum 123, filePath = Some ''a.css'', rtlcssOptions = [], apiKey = None\<rparr> fresh
     = (Inl \<lparr>message = ''No valid CSS content provided'', statusCode = 422, errorCode = ''INVALID_CSS''\<rparr>, fresh)"
  using invalid_css_rejected [of node_env
      "\<lparr>css = JNum 123, filePath = Some ''a.css'', rtlcssOptions = [], apiKey = None\<rparr>"
      "JNum 123" clock fresh]
  by (simp add: load_css_def invalid_css_def validationError_def)

text \<open>
  The claim as stated fails: an empty \<open>css\<close> together with a \<open>filePath\<close> is not
  rejected, the text of the file is converted.
\<close>

theorem file_input_not_rejected:
  "fst (ltrToRtl file_env clock \<lparr>css = JStr [], filePath = Some ''a.css'', rtlcssOptions = [], apiKey = None\<rparr> fresh)
     = Inr \<lparr>converted = ''a{}'',
            result_stats = \<lparr>originalSize = 3, convertedSize = 3, processingTimeMs = 5, cached = Some False\<rparr>\<rparr>"
  by (simp add: ltrToRtl_def load_css_def file_env_def node_env_def fresh_def new_cache_def clock_def
      merged_options_def cache_key_def get_def Let_def rtlcss_process_def convert_decl_def
      byteLength_def math_round_def elapsed_ms_def recordConversion_def)

text \<open>
  Claim C3 (rtlToLtr and the cache). \<open>rtlToLtr\<close> returns the cache as it received it,
  entries and counters; its result does not depend on what the cache holds; and for every
  accepted text the result is the engine's output on the preprocessed text, so the
  second of two identical calls computes it again.
\<close>

theorem rtlToLtr_ignores_cache:
  "cacheService (snd (rtlToLtr e t req w)) = cacheService w
   \<and> fst (rtlToLtr e t req (w\<lparr>cacheService := c\<rparr>)) = fst (rtlToLtr e t req w)
   \<and> (\<forall>text out. load_css e req = Inr (JStr text) \<and> text \<noteq> []
          \<and> process e (preprocess text) (merged_options req) = Inr out \<longrightarrow>
        fst (rtlToLtr e t req w) =
          Inr \<lparr>converted = out,
               result_stats = \<lparr>originalSize = byteLength text, convertedSize = byteLength out,
                               processingTimeMs = math_round (elapsed_ms (hrtime t)), cached = None\<rparr>\<rparr>)"
  by (auto simp: rtlToLtr_def recordConversion_def Let_def split: sum.splits option.splits)

theorem rtlToLtr_ignores_cache_witness:
  "fst (rtlToLtr node_env clock (css_request ''a { float: left; }'')
          (snd (rtlToLtr node_env clock (css_request ''a { float: left; }'') fresh)))
     = Inr \<lparr>converted = ''a { float: right; }'',
            result_stats = \<lparr>originalSize = 18, convertedSize = 19, processingTimeMs = 5, cached = None\<rparr>\<rparr>
   \<and> cacheService (snd (rtlToLtr node_env clock (css_request ''a { float: left; }'') fresh)) = new_cache"
proof -
  have p: "preprocess ''a { float: left; }'' = ''a { float: left; }''"
    by code_simp
  have q: "rtlcss_process ''a { float: left; }'' = ''a { float: right; }''"
    by code_simp
  have l: "load_css node_env (css_request ''a { float: left; }'') = Inr (JStr ''a { float: left; }'')"
    by (simp add: load_css_def css_request_def)
  have b: "byteLength ''a { float: left; }'' = 18" "byteLength ''a { float: right; }'' = 19"
    by (simp_all add: byteLength_def)
  have r: "math_round (elapsed_ms (hrtime clock)) = 5"
    by (simp add: math_round_def elapsed_ms_def clock_def)
  from rtlToLtr_ignores_cache [of node_env clock "css_request ''a { float: left; }''"
      "snd (rtlToLtr node_env clock (css_request ''a { float: left; }'') fresh)" new_cache]
    rtlToLtr_ignores_cache [of node_env clock "css_request ''a { float: left; }''" fresh new_cache]
    p q l b r
  show ?thesis by (simp add: node_env_def fresh_def)
qed

lemma get_miss_effect:
  assumes "fst (get now key c) = None"
  shows "stored (stats (snd (get now key c))) = stored (stats c)"
    and "hits (stats (snd (get now key c))) = hits (stats c)"
    and "misses (stats (snd (get now key c))) = Suc (misses (stats c))"
    and "cache (snd (get now key c)) = AList.delete key (cache c)
         \<or> cache (snd (get now key c)) = cache c"
    and "k \<noteq> key \<Longrightarrow> map_of (cache (snd (get now key c))) k = map_of (cache c) k"
    and "map_of (cache (snd (get now key c))) key = None"
  using assms by (auto simp: get_def AList.delete_conv' split: option.splits if_splits)

text \<open>
  Claim C8 (failed conversions and the cache), as amended. When the engine throws, the
  call ends with the internal error \<open>CONVERSION_ERROR\<close> and nothing is stored: the
  \<open>stored\<close> and \<open>hits\<close> counters and every item under another key are as before, and
  no item is left under the key of the call. The cache is changed only by the lookup
  that precedes the conversion in \<open>ltrToRtl\<close>, which counts a miss and removes an
  expired item under that key; \<open>rtlToLtr\<close> leaves the whole state as it was.
\<close>

theorem failed_conversion_not_stored:
  "(load_css e req = Inr (JStr text) \<and> text \<noteq> []
      \<and> fst (get (now_get t) (cache_key e text (merged_options req)) (cacheService w)) = None
      \<and> process e text (merged_options req) = Inl err \<longrightarrow>
    ltrToRtl e t req w =
      (Inl (internal ''Error processing CSS conversion'' ''CONVERSION_ERROR''),
       w\<lparr>cacheService := snd (get (now_get t) (cache_key e text (merged_options req)) (cacheService w))\<rparr>)
    \<and> stored (stats (cacheService (snd (ltrToRtl e t req w)))) = stored (stats (cacheService w))
    \<and> hits (stats (cacheService (snd (ltrToRtl e t req w)))) = hits (stats (cacheService w))
    \<and> map_of (cache (cacheService (snd (ltrToRtl e t req w)))) (cache_key e text (merged_options req)) = None
    \<and> (\<forall>k. k \<noteq> cache_key e text (merged_options req) \<longrightarrow>
           map_of (cache (cacheService (snd (ltrToRtl e t req w)))) k
             = map_of (cache (cacheService w)) k))
   \<and> (load_css e req = Inr (JStr text) \<and> text \<noteq> []
      \<and> process e (preprocess text) (merged_options req) = Inl err \<longrightarrow>
    rtlToLtr e t req w =
      (Inl (internal ''Error processing CSS conversion'' ''CONVERSION_ERROR''), w))"
proof (intro conjI impI)
  assume h: "load_css e req = Inr (JStr text) \<and> text \<noteq> []
      \<and> fst (get (now_get t) (cache_key e text (merged_options req)) (cacheService w)) = None
      \<and> process e text (merged_options req) = Inl err"
  then show run: "ltrToRtl e t req w =
      (Inl (internal ''Error processing CSS conversion'' ''CONVERSION_ERROR''),
       w\<lparr>cacheService := snd (get (now_get t) (cache_key e text (merged_options req)) (cacheService w))\<rparr>)"
    by (simp add: ltrToRtl_def Let_def)
  from h have miss: "fst (get (now_get t) (cache_key e text (merged_options req)) (cacheService w)) = None"
    by simp
  show "stored (stats (cacheService (snd (ltrToRtl e t req w)))) = stored (stats (cacheService w))"
    by (simp add: run get_miss_effect(1)[OF miss])
  show "hits (stats (cacheService (snd (ltrToRtl e t req w)))) = hits (stats (cacheService w))"
    by (simp add: run get_miss_effect(2)[OF miss])
  show "map_of (cache (cacheService (snd (ltrToRtl e t req w)))) (cache_key e text (merged_options req)) = None"
    by (simp add: run get_miss_effect(6)[OF miss])
  show "\<forall>k. k \<noteq> cache_key e text (merged_options req) \<longrightarrow>
           map_of (cache (cacheService (snd (ltrToRtl e t req w)))) k
             = map_of (cache (cacheService w)) k"
    by (simp add: run get_miss_effect(5)[OF miss])
next
  assume "load_css e req = Inr (JStr text) \<and> text \<noteq> []
      \<and> process e (preprocess text) (merged_options req) = Inl err"
  then show "rtlToLtr e t req w =
      (Inl (internal ''Error processing CSS conversion'' ''CONVERSION_ERROR''), w)"
    by (simp add: rtlToLtr_def Let_def)
qed

theorem failed_conversion_not_stored_witness:
  "ltrToRtl failing_env clock (css_request ''a{}'') fresh =
      (Inl (internal ''Error processing CSS conversion'' ''CONVERSION_ERROR''),
       fresh\<lparr>cacheService := new_cache\<lparr>stats := \<lparr>hits = 0, misses = 1, stored = 0, evicted = 0\<rparr>\<rparr>\<rparr>)
   \<and> rtlToLtr failing_env clock (css_request ''a{}'') fresh =
      (Inl (internal ''Error processing CSS conversion'' ''CONVERSION_ERROR''), fresh)"
  using failed_conversion_not_stored [of failing_env "css_request ''a{}''" "''a{}''" clock fresh "''CssSyntaxError''"]
  by (simp add: load_css_def failing_env_def node_env_def fresh_def new_cache_def
      clock_def css_request_def merged_options_def cache_key_def get_def Let_def)

text \<open>
  The claim as stated fails: after a conversion that threw, the cache is not the cache
  before the call, its \<open>misses\<close> counter has moved.
\<close>

theorem failed_conversion_counts_miss:
  "fst (ltrToRtl failing_env clock (css_request ''a{}'') fresh)
     = Inl (internal ''Error processing CSS conversion'' ''CONVERSION_ERROR'')
   \<and> misses (stats (cacheService fresh)) = 0
   \<and> misses (stats (cacheService (snd (ltrToRtl failing_env clock (css_request ''a{}'') fresh)))) = 1"
  by (simp add: ltrToRtl_def load_css_def failing_env_def node_env_def fresh_def new_cache_def
      clock_def css_request_def merged_options_def cache_key_def get_def Let_def)




lemma usage_cache:
  "cacheService (recordConversion k kind a b ms w) = cacheService w"
  by (simp add: recordConversion_def split: option.splits)





section \<open>Bounded occupancy\<close>

lemma cache_key_nonempty: "cache_key e text options \<noteq> []"
  by (simp add: cache_key_def generateKey_def)

lemma inv_get: "cache_inv c \<Longrightarrow> cache_inv (snd (get now key c))"
proof -
  assume a: "cache_inv c"
  have "length (AList.delete key (cache c)) \<le> length (cache c)" by (rule AList.length_delete_le)
  moreover have "fst ` set (AList.delete key (cache c)) \<subseteq> fst ` set (cache c)"
    by (rule AList.dom_delete_subset)
  ultimately show ?thesis using a
    by (auto simp: cache_inv_def get_def AList.distinct_delete split: option.splits)
qed

lemma evict_full:
  assumes "cache_inv c" "maxSize c \<le> length (cache c)"
  shows "\<exists>k item. (k, item) \<in> set (cache c)
           \<and> (\<forall>e\<in>set (cache c). expiresAt item \<le> expiresAt (snd e))
           \<and> evictOldest c = c\<lparr>cache := AList.delete k (cache c),
                                 stats := (stats c)\<lparr>evicted := Suc (evicted (stats c))\<rparr>\<rparr>"
proof -
  from assms have ne: "cache c \<noteq> []" by (auto simp: cache_inv_def)
  from find_oldest_result[OF ne] obtain k item where
    h: "find_oldest (cache c) = (Some k, Some (expiresAt item))" "(k, item) \<in> set (cache c)"
       "\<forall>e\<in>set (cache c). expiresAt item \<le> expiresAt (snd e)" by blast
  from h(2) assms(1) have "k \<noteq> []" by (force simp: cache_inv_def)
  with h show ?thesis by (auto simp: evictOldest_def)
qed

lemma inv_set:
  assumes "cache_inv c" "key \<noteq> []"
  shows "cache_inv (set_cache now key v ttl c)"
proof (cases "maxSize c \<le> length (cache c)")
  case False
  with assms show ?thesis
    by (auto simp: cache_inv_def set_cache_def Let_def length_update AList.distinct_update
        AList.dom_update)
next
  case True
  from evict_full[OF assms(1) True] obtain k item where
    h: "(k, item) \<in> set (cache c)"
       "evictOldest c = c\<lparr>cache := AList.delete k (cache c),
                            stats := (stats c)\<lparr>evicted := Suc (evicted (stats c))\<rparr>\<rparr>" by blast
  have l: "length (AList.delete k (cache c)) < length (cache c)"
    using h(1) by (rule length_delete_present)
  have d: "fst ` set (AList.delete k (cache c)) \<subseteq> fst ` set (cache c)"
    by (rule AList.dom_delete_subset)
  from assms True l d show ?thesis
    by (auto simp: cache_inv_def set_cache_def Let_def h(2) length_update AList.distinct_update
        AList.distinct_delete AList.dom_update)
qed

lemma inv_ltrToRtl:
  assumes "cache_inv (cacheService w)"
  shows "cache_inv (cacheService (snd (ltrToRtl e t req w)))"
  using assms inv_get[OF assms] inv_set[OF inv_get[OF assms] cache_key_nonempty]
  by (auto simp: ltrToRtl_def Let_def usage_cache split: sum.splits option.splits)

lemma inv_sweep: "cache_inv c \<Longrightarrow> cache_inv (runGarbageCollection now c)"
proof -
  assume a: "cache_inv c"
  then have "length (cache (runGarbageCollection now c)) \<le> maxSize c"
    unfolding runGarbageCollection_def cache_inv_def
    by (simp del: not_less) (metis length_filter_le le_trans)
  with a show ?thesis
    by (auto simp: cache_inv_def runGarbageCollection_def distinct_map_filter)
qed

lemma at_limit_inv: "cache_inv cache_at_limit"
proof -
  have inj: "inj_on (\<lambda>i. ''ltr2rtl:'' @ replicate (Suc i) CHR ''k'') (set [0..<999])"
  proof (rule inj_onI)
    fix i j
    assume "''ltr2rtl:'' @ replicate (Suc i) CHR ''k'' = ''ltr2rtl:'' @ replicate (Suc j) CHR ''k''"
    then have "length (replicate (Suc i) CHR ''k'') = length (replicate (Suc j) CHR ''k'')"
      by (simp only: same_append_eq)
    then show "i = j" by simp
  qed
  have d: "distinct (map (\<lambda>i. ''ltr2rtl:'' @ replicate (Suc i) CHR ''k'') [0..<999])"
    using inj by (simp add: distinct_map)
  have n: "''ltr2rtl:a'' \<notin> set (map (\<lambda>i. ''ltr2rtl:'' @ replicate (Suc i) CHR ''k'') [0..<999])"
    by auto
  have e: "[] \<notin> set (map (\<lambda>i. ''ltr2rtl:'' @ replicate (Suc i) CHR ''k'') [0..<999])"
    by auto
  have m: "map fst (cache cache_at_limit)
             = ''ltr2rtl:a'' # map (\<lambda>i. ''ltr2rtl:'' @ replicate (Suc i) CHR ''k'') [0..<999]"
    by (simp add: cache_at_limit_def comp_def)
  have l: "length (cache cache_at_limit) = 1000" "maxSize cache_at_limit = 1000"
    by (simp_all add: cache_at_limit_def)
  have s: "fst ` set (cache cache_at_limit) = set (map fst (cache cache_at_limit))" by simp
  show ?thesis
    unfolding cache_inv_def s m using d n e l by simp
qed

text \<open>
  Claim C5 (bounded occupancy). The cache of a fresh service satisfies \<open>cache_inv\<close>, and
  every operation that reaches the cache keeps it: both conversions, the periodic sweep,
  \<open>clear\<close>, and \<open>set\<close> with a non-empty key. So the cache never holds more than
  \<open>maxSize\<close> items, however many are inserted. When an insertion finds the cache full,
  exactly one stored item is evicted and counted, one whose \<open>expiresAt\<close> is least among
  all stored items (the first such in insertion order), whatever was read or written
  last.
\<close>

theorem bounded_occupancy:
  "cache_inv (cacheService fresh)
   \<and> (cache_inv (cacheService w) \<longrightarrow>
        cache_inv (cacheService (snd (ltrToRtl e t req w)))
        \<and> cache_inv (cacheService (snd (rtlToLtr e t req w)))
        \<and> cache_inv (runGarbageCollection now (cacheService w))
        \<and> cache_inv (clear (cacheService w))
        \<and> length (cache (cacheService w)) \<le> maxSize (cacheService w))
   \<and> (cache_inv c \<and> key \<noteq> [] \<longrightarrow>
        cache_inv (set_cache now key v ttl c)
        \<and> length (cache (set_cache now key v ttl c)) \<le> maxSize c)
   \<and> (cache_inv c \<and> maxSize c \<le> length (cache c) \<longrightarrow>
        (\<exists>k item. (k, item) \<in> set (cache c)
           \<and> (\<forall>e\<in>set (cache c). expiresAt item \<le> expiresAt (snd e))
           \<and> cache (set_cache now key v ttl c)
               = AList.update key
                   \<lparr>item_value = v,
                    expiresAt = now + (case ttl of None \<Rightarrow> defaultTtl c | Some n \<Rightarrow> n)\<rparr>
                   (AList.delete k (cache c))
           \<and> evicted (stats (set_cache now key v ttl c)) = Suc (evicted (stats c))))"
proof (intro conjI impI)
  show "cache_inv (cacheService fresh)"
    by (simp add: cache_inv_def fresh_def new_cache_def)
next
  assume a: "cache_inv (cacheService w)"
  show "cache_inv (cacheService (snd (ltrToRtl e t req w)))" by (rule inv_ltrToRtl[OF a])
  from a show "cache_inv (cacheService (snd (rtlToLtr e t req w)))"
    by (auto simp: rtlToLtr_def Let_def usage_cache split: sum.splits option.splits)
  show "cache_inv (runGarbageCollection now (cacheService w))" by (rule inv_sweep[OF a])
  from a show "cache_inv (clear (cacheService w))" by (simp add: cache_inv_def clear_def)
  from a show "length (cache (cacheService w)) \<le> maxSize (cacheService w)"
    by (simp add: cache_inv_def)
next
  assume a: "cache_inv c \<and> key \<noteq> []"
  then have i: "cache_inv (set_cache now key v ttl c)" by (simp add: inv_set)
  then show "cache_inv (set_cache now key v ttl c)" .
  have "maxSize (set_cache now key v ttl c) = maxSize c"
    by (simp add: set_cache_def Let_def evictOldest_def split: option.splits)
  with i show "length (cache (set_cache now key v ttl c)) \<le> maxSize c"
    by (simp add: cache_inv_def)
next
  assume a: "cache_inv c \<and> maxSize c \<le> length (cache c)"
  then obtain k item where h: "(k, item) \<in> set (cache c)"
      "\<forall>e\<in>set (cache c). expiresAt item \<le> expiresAt (snd e)"
      "evictOldest c = c\<lparr>cache := AList.delete k (cache c),
                           stats := (stats c)\<lparr>evicted := Suc (evicted (stats c))\<rparr>\<rparr>"
    using evict_full[of c] by blast
  from a h(3) have "cache (set_cache now key v ttl c)
               = AList.update key
                   \<lparr>item_value = v,
                    expiresAt = now + (case ttl of None \<Rightarrow> defaultTtl c | Some n \<Rightarrow> n)\<rparr>
                   (AList.delete k (cache c))
           \<and> evicted (stats (set_cache now key v ttl c)) = Suc (evicted (stats c))"
    by (simp add: set_cache_def Let_def)
  with h(1,2) show "\<exists>k item. (k, item) \<in> set (cache c)
           \<and> (\<forall>e\<in>set (cache c). expiresAt item \<le> expiresAt (snd e))
           \<and> cache (set_cache now key v ttl c)
               = AList.update key
                   \<lparr>item_value = v,
                    expiresAt = now + (case ttl of None \<Rightarrow> defaultTtl c | Some n \<Rightarrow> n)\<rparr>
                   (AList.delete k (cache c))
           \<and> evicted (stats (set_cache now key v ttl c)) = Suc (evicted (stats c))"
    by blast
qed

theorem bounded_occupancy_witness:
  "cache_inv cache_at_limit
   \<and> length (cache cache_at_limit) = 1000 \<and> maxSize cache_at_limit = 1000
   \<and> cache_inv (set_cache 5 ''ltr2rtl:new'' 7 None cache_at_limit)
   \<and> length (cache (set_cache 5 ''ltr2rtl:new'' 7 None cache_at_limit)) \<le> 1000
   \<and> evicted (stats (set_cache 5 ''ltr2rtl:new'' 7 None cache_at_limit)) = 1
   \<and> map_of (cache (set_cache 5 ''ltr2rtl:new'' 7 None cache_at_limit)) ''ltr2rtl:a'' = None
   \<and> map_of (cache (set_cache 5 ''ltr2rtl:new'' 7 None cache_at_limit)) ''ltr2rtl:new''
        = Some \<lparr>item_value = 7, expiresAt = 3600005\<rparr>"
proof -
  let ?c = "cache_at_limit"
  let ?r = "set_cache 5 ''ltr2rtl:new'' 7 None cache_at_limit"
  have l: "length (cache ?c) = 1000" "maxSize ?c = 1000" "evicted (stats ?c) = 0"
    "defaultTtl ?c = 3600000"
    by (simp_all add: cache_at_limit_def)
  have full: "maxSize ?c \<le> length (cache ?c)" by (simp add: l)
  note th = bounded_occupancy [of fresh node_env clock "css_request ''a{}''" 5 ?c "''ltr2rtl:new''" 7 None]
  from th at_limit_inv have i: "cache_inv ?r" and b: "length (cache ?r) \<le> maxSize ?c" by simp_all
  from th at_limit_inv full obtain k item where
    h: "(k, item) \<in> set (cache ?c)" "\<forall>e\<in>set (cache ?c). expiresAt item \<le> expiresAt (snd e)"
       "cache ?r = AList.update ''ltr2rtl:new''
                     \<lparr>item_value = 7, expiresAt = 5 + defaultTtl ?c\<rparr> (AList.delete k (cache ?c))"
       "evicted (stats ?r) = Suc (evicted (stats ?c))"
    by auto
  have first: "(''ltr2rtl:a'', \<lparr>item_value = 0, expiresAt = 1\<rparr>) \<in> set (cache ?c)"
    by (simp add: cache_at_limit_def)
  with h(2) have "expiresAt item \<le> 1" by fastforce
  with h(1) have k: "k = ''ltr2rtl:a''" by (auto simp: cache_at_limit_def)
  have gone: "map_of (cache ?r) ''ltr2rtl:a'' = None"
    by (simp add: h(3) k AList.update_conv' AList.delete_conv')
  have new: "map_of (cache ?r) ''ltr2rtl:new'' = Some \<lparr>item_value = 7, expiresAt = 3600005\<rparr>"
    by (simp add: h(3) AList.update_conv' l)
  from at_limit_inv l i b h(4) gone new show ?thesis by simp
qed

section \<open>Properties of option handling\<close>

lemma map_of_spread: "map_of (spread a b) = map_of a ++ map_of (rev b)"
  unfolding spread_def
proof (induction b arbitrary: a)
  case Nil
  show ?case by simp
next
  case (Cons x xs)
  show ?case
    by (cases x) (auto simp: Cons.IH AList.update_conv' map_add_def fun_eq_iff split: option.splits)
qed

lemma keys_spread:
  "fst ` set b \<subseteq> fst ` set a \<Longrightarrow> map fst (spread a b) = map fst a"
  unfolding spread_def
proof (induction b arbitrary: a)
  case Nil
  show ?case by simp
next
  case (Cons x xs)
  from Cons.prems have "fst x \<in> set (map fst a)" by auto
  then have k: "map fst (AList.update (fst x) (snd x) a) = map fst a"
    by (simp add: AList.update_keys)
  then have "fst ` set xs \<subseteq> fst ` set (AList.update (fst x) (snd x) a)"
    using Cons.prems by (metis list.set_map set_subset_Cons subset_trans image_mono)
  from Cons.IH[OF this] k show ?case by simp
qed

lemma alist_eqI:
  "map fst xs = map fst ys \<Longrightarrow> distinct (map fst xs) \<Longrightarrow> map_of xs = map_of ys \<Longrightarrow> xs = ys"
proof (induction xs arbitrary: ys)
  case Nil
  then show ?case by simp
next
  case (Cons x xs)
  obtain k v where x: "x = (k, v)" by (cases x)
  from Cons.prems(1) x obtain v' ys' where ys: "ys = (k, v') # ys'" "map fst xs = map fst ys'"
    by (cases ys) auto
  from Cons.prems(3) have "map_of (x # xs) k = map_of ys k" by (rule fun_cong)
  with x ys have v: "v = v'" by simp
  from Cons.prems(2) x have notin: "k \<notin> fst ` set xs" by simp
  with ys(2) have notin': "k \<notin> fst ` set ys'" by (metis list.set_map)
  have "map_of xs = map_of ys'"
  proof
    fix k'
    show "map_of xs k' = map_of ys' k'"
    proof (cases "k' = k")
      case True
      with notin notin' show ?thesis by (simp add: map_of_eq_None_iff[THEN iffD2])
    next
      case False
      from Cons.prems(3) have "map_of (x # xs) k' = map_of ys k'" by (rule fun_cong)
      with False x ys show ?thesis by simp
    qed
  qed
  with Cons.IH[of ys'] ys(2) Cons.prems(2) have "xs = ys'" by simp
  with x v ys show ?case by simp
qed

lemma spread_normalised:
  assumes "fst ` set o1 \<subseteq> fst ` set a" "fst ` set o2 \<subseteq> fst ` set a" "distinct (map fst a)"
    and "map_of a ++ map_of (rev o1) = map_of a ++ map_of (rev o2)"
  shows "spread a o1 = spread a o2"
proof -
  have "map fst (spread a o1) = map fst (spread a o2)"
    by (simp add: keys_spread assms(1,2))
  moreover have "distinct (map fst (spread a o1))"
    by (simp add: keys_spread assms(1,3))
  moreover have "map_of (spread a o1) = map_of (spread a o2)"
    by (simp add: map_of_spread assms(4))
  ultimately show ?thesis by (rule alist_eqI)
qed

lemma default_keys: "fst ` set defaultOptions = set allowedOptions"
  by (simp add: defaultOptions_def allowedOptions_def)

lemma default_distinct: "distinct (map fst defaultOptions)"
  by (simp add: defaultOptions_def)

lemma map_of_rev_distinct: "distinct (map fst xs) \<Longrightarrow> map_of (rev xs) = map_of xs"
proof (induction xs)
  case Nil
  show ?case by simp
next
  case (Cons x xs)
  obtain k v where x: "x = (k, v)" by (cases x)
  from Cons.prems x have "map_of xs k = None" by (simp add: map_of_eq_None_iff)
  then have "[k \<mapsto> v] ++ map_of xs = (map_of xs)(k \<mapsto> v)"
    by (auto simp: fun_eq_iff map_add_def split: option.splits)
  with Cons x show ?case by simp
qed

lemma update_facts:
  "map_of ps k = Some x \<Longrightarrow>
     map_of (AList.update k x acc)
       = (\<lambda>k'. if k' = k \<and> map_of ps k' \<noteq> None then map_of ps k' else map_of acc k')
     \<and> fst ` set (AList.update k x acc) \<subseteq> {k} \<union> fst ` set acc
     \<and> (distinct (map fst acc) \<longrightarrow> distinct (map fst (AList.update k x acc)))"
  by (auto simp: AList.update_conv' fun_eq_iff AList.dom_update AList.distinct_update)

lemma keep_facts:
  "map_of ps k = None \<Longrightarrow>
     map_of acc = (\<lambda>k'. if k' = k \<and> map_of ps k' \<noteq> None then map_of ps k' else map_of acc k')
     \<and> fst ` set acc \<subseteq> {k} \<union> fst ` set acc
     \<and> (distinct (map fst acc) \<longrightarrow> distinct (map fst acc))"
  by (auto simp: fun_eq_iff)

lemma has_prop_map_of: "has_prop k (JObj ps) \<longleftrightarrow> map_of ps k \<noteq> None"
  by (simp add: map_of_eq_None_iff)

lemma validate_bools_sound:
  "validate_bools bs (JObj ps) acc = Inr v \<Longrightarrow>
     map_of v = (\<lambda>k. if k \<in> set bs \<and> map_of ps k \<noteq> None then map_of ps k else map_of acc k)
     \<and> fst ` set v \<subseteq> set bs \<union> fst ` set acc
     \<and> (distinct (map fst acc) \<longrightarrow> distinct (map fst v))"
proof (induction bs arbitrary: acc)
  case Nil
  then show ?case by simp
next
  case (Cons b bs)
  show ?case
  proof (cases "map_of ps b")
    case None
    with Cons.prems have "validate_bools bs (JObj ps) acc = Inr v"
      by (simp add: map_of_eq_None_iff)
    from Cons.IH[OF this] None show ?thesis by (auto simp: fun_eq_iff)
  next
    case (Some x)
    then have hp: "has_prop b (JObj ps)" by (simp add: has_prop_map_of del: has_prop.simps)
    with Cons.prems Some obtain t where x: "x = JBool t"
      and rec: "validate_bools bs (JObj ps) (AList.update b (JBool t) acc) = Inr v"
      by (cases x) (simp_all del: has_prop.simps)
    from Cons.IH[OF rec] Some x show ?thesis
      by (auto simp: fun_eq_iff AList.update_conv' AList.dom_update AList.distinct_update)
  qed
qed

lemma validated_options:
  assumes "validateRtlcssOptions (JObj ps) = Inr v"
  shows "map_of v = map_of ps" and "fst ` set v \<subseteq> set allowedOptions" and "distinct (map fst v)"
    and "fst ` set ps \<subseteq> set allowedOptions"
proof -
  from assms have keys: "filter (\<lambda>key. key \<notin> set allowedOptions) (map fst ps) = []"
    by (simp add: validateRtlcssOptions_def Let_def split: if_splits)
  then show ks: "fst ` set ps \<subseteq> set allowedOptions"
    by (auto simp: filter_empty_conv)
  from assms keys obtain v1 v2 where
    b: "validate_bools boolOptions (JObj ps) [] = Inr v1"
    and bl: "validate_blacklist (JObj ps) v1 = Inr v2"
    and sm: "validate_stringMap (JObj ps) v2 = Inr v"
    by (auto simp: validateRtlcssOptions_def Let_def split: if_splits sum.splits)
  note s1 = validate_bools_sound[OF b]
  have s2: "map_of v2 = (\<lambda>k. if k = ''blacklist'' \<and> map_of ps k \<noteq> None then map_of ps k else map_of v1 k)
    \<and> fst ` set v2 \<subseteq> {''blacklist''} \<union> fst ` set v1
    \<and> (distinct (map fst v1) \<longrightarrow> distinct (map fst v2))"
  proof (cases "map_of ps ''blacklist''")
    case None
    with bl have "v2 = v1" by (simp add: validate_blacklist_def map_of_eq_None_iff)
    with keep_facts[OF None, of v1] show ?thesis by simp
  next
    case (Some x)
    then have "''blacklist'' \<in> fst ` set ps"
      by (metis map_of_eq_None_iff option.distinct(1))
    with bl Some have "v2 = AList.update ''blacklist'' x v1"
      by (simp add: validate_blacklist_def split: if_splits)
    with update_facts[OF Some, of v1] show ?thesis by simp
  qed
  have s3: "map_of v = (\<lambda>k. if k = ''stringMap'' \<and> map_of ps k \<noteq> None then map_of ps k else map_of v2 k)
    \<and> fst ` set v \<subseteq> {''stringMap''} \<union> fst ` set v2
    \<and> (distinct (map fst v2) \<longrightarrow> distinct (map fst v))"
  proof (cases "map_of ps ''stringMap''")
    case None
    with sm have "v = v2" by (simp add: validate_stringMap_def map_of_eq_None_iff)
    with keep_facts[OF None, of v2] show ?thesis by simp
  next
    case (Some x)
    then have "''stringMap'' \<in> fst ` set ps"
      by (metis map_of_eq_None_iff option.distinct(1))
    with sm Some have "v = AList.update ''stringMap'' x v2"
      by (simp add: validate_stringMap_def split: if_splits jsval.splits)
    with update_facts[OF Some, of v2] show ?thesis by simp
  qed
  from s1 s2 s3 show "distinct (map fst v)" by simp
  from s1 have "fst ` set v1 \<subseteq> set boolOptions" by simp
  with s2 s3 have "fst ` set v \<subseteq> {''stringMap''} \<union> ({''blacklist''} \<union> set boolOptions)"
    by blast
  moreover have "{''stringMap''} \<union> ({''blacklist''} \<union> set boolOptions) \<subseteq> set allowedOptions"
    by (simp add: allowedOptions_def boolOptions_def)
  ultimately show "fst ` set v \<subseteq> set allowedOptions" by (rule subset_trans)
  have p1: "map_of v1 k = (if k \<in> set boolOptions \<and> map_of ps k \<noteq> None then map_of ps k else None)" for k
    using s1 by simp
  have p2: "map_of v2 k = (if k = ''blacklist'' \<and> map_of ps k \<noteq> None then map_of ps k else map_of v1 k)" for k
    using s2 by simp
  have p3: "map_of v k = (if k = ''stringMap'' \<and> map_of ps k \<noteq> None then map_of ps k else map_of v2 k)" for k
    using s3 by simp
  show "map_of v = map_of ps"
  proof
    fix k
    show "map_of v k = map_of ps k"
    proof (cases "map_of ps k")
      case None
      then show ?thesis by (simp add: p1 p2 p3)
    next
      case (Some x)
      then have "k \<in> fst ` set ps" by (metis map_of_eq_None_iff option.distinct(1))
      with ks have "k \<in> set allowedOptions" by blast
      then have "k = ''stringMap'' \<or> k = ''blacklist'' \<or> k \<in> set boolOptions"
        by (auto simp: allowedOptions_def boolOptions_def)
      with Some show ?thesis by (auto simp: p1 p2 p3)
    qed
  qed
qed

text \<open>
  Claim C4 (fingerprint normalisation). The cache key of \<open>ltrToRtl\<close> is computed from
  the text and the options merged over the defaults. For two option objects with
  recognised names that agree as key-value maps once the defaults are filled in (so
  whatever the order of their keys, and whether an option is omitted or given its
  default value), the merged objects are the same list and the keys are equal; this
  holds for the objects as given and for what \<open>validateRtlcssOptions\<close> returns for them.
\<close>

theorem cache_key_normalised:
  "(fst ` set o1 \<subseteq> set allowedOptions \<and> fst ` set o2 \<subseteq> set allowedOptions
      \<and> distinct (map fst o1) \<and> distinct (map fst o2)
      \<and> map_of defaultOptions ++ map_of o1 = map_of defaultOptions ++ map_of o2 \<longrightarrow>
    cache_key e text (spread defaultOptions o1) = cache_key e text (spread defaultOptions o2))
   \<and> (validateRtlcssOptions (JObj o1) = Inr v1 \<and> validateRtlcssOptions (JObj o2) = Inr v2
      \<and> distinct (map fst o1) \<and> distinct (map fst o2)
      \<and> map_of defaultOptions ++ map_of o1 = map_of defaultOptions ++ map_of o2 \<longrightarrow>
    cache_key e text (spread defaultOptions v1) = cache_key e text (spread defaultOptions v2))"
proof (intro conjI impI)
  assume h: "fst ` set o1 \<subseteq> set allowedOptions \<and> fst ` set o2 \<subseteq> set allowedOptions
      \<and> distinct (map fst o1) \<and> distinct (map fst o2)
      \<and> map_of defaultOptions ++ map_of o1 = map_of defaultOptions ++ map_of o2"
  then have "spread defaultOptions o1 = spread defaultOptions o2"
    by (intro spread_normalised) (simp_all add: default_keys default_distinct map_of_rev_distinct)
  then show "cache_key e text (spread defaultOptions o1) = cache_key e text (spread defaultOptions o2)"
    by simp
next
  assume h: "validateRtlcssOptions (JObj o1) = Inr v1 \<and> validateRtlcssOptions (JObj o2) = Inr v2
      \<and> distinct (map fst o1) \<and> distinct (map fst o2)
      \<and> map_of defaultOptions ++ map_of o1 = map_of defaultOptions ++ map_of o2"
  then have a: "validateRtlcssOptions (JObj o1) = Inr v1" and b: "validateRtlcssOptions (JObj o2) = Inr v2"
    by simp_all
  from h validated_options[OF a] validated_options[OF b]
  have "spread defaultOptions v1 = spread defaultOptions v2"
    by (intro spread_normalised) (simp_all add: default_keys default_distinct map_of_rev_distinct)
  then show "cache_key e text (spread defaultOptions v1) = cache_key e text (spread defaultOptions v2)"
    by simp
qed

theorem cache_key_normalised_witness:
  "validateRtlcssOptions (JObj [(''useCalc'', JBool True), (''clean'', JBool True)])
     = Inr [(''clean'', JBool True), (''useCalc'', JBool True)]
   \<and> validateRtlcssOptions (JObj [(''useCalc'', JBool True)]) = Inr [(''useCalc'', JBool True)]
   \<and> cache_key node_env ''a{}'' (spread defaultOptions [(''useCalc'', JBool True), (''clean'', JBool True)])
     = cache_key node_env ''a{}'' (spread defaultOptions [(''useCalc'', JBool True)])
   \<and> cache_key node_env ''a{}'' (spread defaultOptions [(''clean'', JBool True), (''useCalc'', JBool True)])
     = cache_key node_env ''a{}'' (spread defaultOptions [(''useCalc'', JBool True)])"
proof -
  let ?o1 = "[(''useCalc'', JBool True), (''clean'', JBool True)]"
  let ?o2 = "[(''useCalc'', JBool True)]"
  let ?v1 = "[(''clean'', JBool True), (''useCalc'', JBool True)]"
  have v1: "validateRtlcssOptions (JObj ?o1) = Inr ?v1"
    by (simp add: validateRtlcssOptions_def allowedOptions_def boolOptions_def
        validate_blacklist_def validate_stringMap_def)
  have v2: "validateRtlcssOptions (JObj ?o2) = Inr ?o2"
    by (simp add: validateRtlcssOptions_def allowedOptions_def boolOptions_def
        validate_blacklist_def validate_stringMap_def)
  have m: "map_of defaultOptions ++ map_of ?o1 = map_of defaultOptions ++ map_of ?o2"
    by (auto simp: fun_eq_iff map_add_def defaultOptions_def)
  have k: "fst ` set ?o1 \<subseteq> set allowedOptions" "fst ` set ?o2 \<subseteq> set allowedOptions"
    by (simp_all add: allowedOptions_def)
  have d: "distinct (map fst ?o1)" "distinct (map fst ?o2)" by simp_all
  from cache_key_normalised [of ?o1 ?o2 node_env "''a{}''" ?v1 ?o2] v1 v2 m k d
  show ?thesis by blast
qed

text \<open>
  Claim C9 (unknown options), as amended. \<open>validateRtlcssOptions\<close> throws
  \<open>INVALID_OPTIONS\<close> for every options object with a key outside the recognised set, and
  the message lists exactly those keys. The conversion entry points do not validate:
  an option they are given, recognised or not, is in the merged options handed to the
  engine, and the call returns what the engine returns.
\<close>

theorem unknown_options_rejected_by_validator:
  "(k \<in> set (object_keys options) \<and> k \<notin> set allowedOptions \<longrightarrow>
      validateRtlcssOptions options =
        Inl (validationError
               (''Invalid RTLCSS options: '' @
                  join '', '' (filter (\<lambda>key. key \<notin> set allowedOptions) (object_keys options)))
               ''INVALID_OPTIONS'')
      \<and> k \<in> set (filter (\<lambda>key. key \<notin> set allowedOptions) (object_keys options)))
   \<and> (distinct (map fst (rtlcssOptions req)) \<and> (k, v) \<in> set (rtlcssOptions req) \<longrightarrow>
        map_of (merged_options req) k = Some v)
   \<and> (load_css e req = Inr (JStr text) \<and> text \<noteq> []
        \<and> fst (get (now_get t) (cache_key e text (merged_options req)) (cacheService w)) = None \<longrightarrow>
      converted_text (ltrToRtl e t req w) =
        (case process e text (merged_options req) of Inl err \<Rightarrow> None | Inr out \<Rightarrow> Some out))
   \<and> (load_css e req = Inr (JStr text) \<and> text \<noteq> [] \<longrightarrow>
      converted_text (rtlToLtr e t req w) =
        (case process e (preprocess text) (merged_options req) of Inl err \<Rightarrow> None | Inr out \<Rightarrow> Some out))"
proof (intro conjI impI)
  assume h: "k \<in> set (object_keys options) \<and> k \<notin> set allowedOptions"
  then have ne: "filter (\<lambda>key. key \<notin> set allowedOptions) (object_keys options) \<noteq> []"
    by (auto simp: filter_empty_conv)
  from h have "truthy options \<and> typeof_object options" by (cases options) auto
  with ne show "validateRtlcssOptions options =
        Inl (validationError
               (''Invalid RTLCSS options: '' @
                  join '', '' (filter (\<lambda>key. key \<notin> set allowedOptions) (object_keys options)))
               ''INVALID_OPTIONS'')"
    by (simp add: validateRtlcssOptions_def Let_def)
  from h show "k \<in> set (filter (\<lambda>key. key \<notin> set allowedOptions) (object_keys options))" by simp
next
  assume h: "distinct (map fst (rtlcssOptions req)) \<and> (k, v) \<in> set (rtlcssOptions req)"
  then have d: "distinct (map fst (rtlcssOptions req))" and m: "map_of (rtlcssOptions req) k = Some v"
    by simp_all
  have "map_of (merged_options req) k = (map_of defaultOptions ++ map_of (rtlcssOptions req)) k"
    by (simp add: merged_options_def map_of_spread map_of_rev_distinct[OF d])
  with m show "map_of (merged_options req) k = Some v"
    by (simp add: map_add_def)
next
  assume "load_css e req = Inr (JStr text) \<and> text \<noteq> []
        \<and> fst (get (now_get t) (cache_key e text (merged_options req)) (cacheService w)) = None"
  then show "converted_text (ltrToRtl e t req w) =
        (case process e text (merged_options req) of Inl err \<Rightarrow> None | Inr out \<Rightarrow> Some out)"
    by (simp add: converted_text_def ltrToRtl_def Let_def split: sum.splits)
next
  assume "load_css e req = Inr (JStr text) \<and> text \<noteq> []"
  then show "converted_text (rtlToLtr e t req w) =
        (case process e (preprocess text) (merged_options req) of Inl err \<Rightarrow> None | Inr out \<Rightarrow> Some out)"
    by (simp add: converted_text_def rtlToLtr_def Let_def split: sum.splits)
qed

theorem unknown_options_rejected_by_validator_witness:
  "validateRtlcssOptions (JObj [(''clean'', JBool True), (''foo'', JNum 1), (''bar'', JNull)])
     = Inl \<lparr>message = ''Invalid RTLCSS options: foo, bar'', statusCode = 422,
            errorCode = ''INVALID_OPTIONS''\<rparr>
   \<and> map_of (merged_options \<lparr>css = JStr ''b{}'', filePath = None,
                 rtlcssOptions = [(''foo'', JNum 1)], apiKey = None\<rparr>) ''foo'' = Some (JNum 1)
   \<and> converted_text (ltrToRtl node_env clock
        \<lparr>css = JStr ''b{}'', filePath = None, rtlcssOptions = [(''foo'', JNum 1)], apiKey = None\<rparr>
        fresh) = Some ''b{}''
   \<and> converted_text (rtlToLtr node_env clock
        \<lparr>css = JStr ''b{}'', filePath = None, rtlcssOptions = [(''foo'', JNum 1)], apiKey = None\<rparr>
        fresh) = Some ''b{}''"
proof -
  have p: "preprocess ''b{}'' = ''b{}''" by code_simp
  have q: "rtlcss_process ''b{}'' = ''b{}''" by code_simp
  from unknown_options_rejected_by_validator [of "''foo''"
      "JObj [(''clean'', JBool True), (''foo'', JNum 1), (''bar'', JNull)]"
      "\<lparr>css = JStr ''b{}'', filePath = None, rtlcssOptions = [(''foo'', JNum 1)], apiKey = None\<rparr>"
      "JNum 1" node_env "''b{}''" clock fresh] p q
  show ?thesis
    by (simp add: allowedOptions_def validationError_def load_css_def fresh_def new_cache_def
        get_def node_env_def)
qed

text \<open>
  The claim as stated fails: called directly with the unrecognised option \<open>foo\<close>,
  \<open>ltrToRtl\<close> converts the text and returns a result.
\<close>

theorem unknown_option_accepted_by_ltrToRtl:
  "fst (ltrToRtl node_env clock
          \<lparr>css = JStr ''a{}'', filePath = None, rtlcssOptions = [(''foo'', JNum 1)], apiKey = None\<rparr> fresh)
     = Inr \<lparr>converted = ''a{}'',
            result_stats = \<lparr>originalSize = 3, convertedSize = 3, processingTimeMs = 5, cached = Some False\<rparr>\<rparr>"
  by (simp add: ltrToRtl_def load_css_def node_env_def fresh_def new_cache_def
      clock_def merged_options_def cache_key_def get_def set_cache_def Let_def
      rtlcss_process_def convert_decl_def byteLength_def math_round_def elapsed_ms_def recordConversion_def)

section \<open>Properties of the conversions\<close>

lemma scan_chunk:
  "\<forall>c\<in>set xs. c \<noteq> CHR 0x7B \<and> c \<noteq> CHR '';'' \<and> c \<noteq> CHR 0x7D \<Longrightarrow>
     scan chunk (xs @ rest) = scan (rev xs @ chunk) rest"
  by (induction xs arbitrary: chunk) auto

lemma scan_one_decl:
  assumes "\<forall>c\<in>set d. c \<noteq> CHR 0x7B \<and> c \<noteq> CHR '';'' \<and> c \<noteq> CHR 0x7D"
  shows "rtlcss_process (d @ '';'') = convert_decl d @ '';''"
proof -
  have "scan [] (d @ '';'') = scan (rev d @ []) '';''" using assms by (rule scan_chunk)
  also have "\<dots> = convert_decl d @ CHR '';'' # convert_decl []" by simp
  also have "convert_decl [] = []" by (simp add: convert_decl_def)
  finally show ?thesis by (simp add: rtlcss_process_def)
qed

lemma comp_fold_token:
  "\<forall>c\<in>set tok. \<not> is_space c \<Longrightarrow>
     foldr comp_step (tok @ xs) acc
       = (tok @ fst (foldr comp_step xs acc), snd (foldr comp_step xs acc))"
  by (induction tok) (auto simp: comp_step_def)

lemma components_token:
  assumes "tok \<noteq> []" "\<forall>c\<in>set tok. \<not> is_space c"
  shows "components (tok @ CHR '' '' # rest) = tok # components rest"
    and "components tok = [tok]"
proof -
  have sp: "is_space CHR '' ''" by (simp add: is_space_def)
  have "foldr comp_step (tok @ CHR '' '' # rest) ([], [])
          = (tok, components rest)"
    using comp_fold_token[OF assms(2), of "CHR '' '' # rest" "([], [])"] sp
    by (simp add: comp_step_def components_def Let_def)
  with assms(1) show "components (tok @ CHR '' '' # rest) = tok # components rest"
    by (simp add: components_def)
  have "foldr comp_step tok ([], []) = (tok, [])"
    using comp_fold_token[OF assms(2), of "[]" "([], [])"] by simp
  with assms(1) show "components tok = [tok]" by (simp add: components_def)
qed

lemma plain_nospace: "plain tok \<Longrightarrow> tok \<noteq> [] \<and> (\<forall>c\<in>set tok. \<not> is_space c)"
  by (auto simp: plain_def list_all_iff)

lemma plain_nostruct:
  "plain tok \<Longrightarrow> \<forall>c\<in>set tok. c \<noteq> CHR 0x7B \<and> c \<noteq> CHR '';'' \<and> c \<noteq> CHR 0x7D"
  by (auto simp: plain_def list_all_iff)

lemma components_four:
  assumes "plain a" "plain b" "plain c" "plain d"
  shows "components (a @ '' '' @ b @ '' '' @ c @ '' '' @ d) = [a, b, c, d]"
  using assms by (simp add: components_token plain_nospace)

lemma takeWhile_space_token:
  "tok \<noteq> [] \<Longrightarrow> \<forall>c\<in>set tok. \<not> is_space c \<Longrightarrow> takeWhile is_space (tok @ xs) = []"
  by (cases tok) auto

lemma dropWhile_space_token:
  "tok \<noteq> [] \<Longrightarrow> \<forall>c\<in>set tok. \<not> is_space c \<Longrightarrow> dropWhile is_space (tok @ xs) = tok @ xs"
  by (cases tok) auto

lemma convert_decl_value:
  assumes nne: "name \<noteq> []" and nm: "\<forall>x\<in>set name. x \<noteq> CHR '':'' \<and> \<not> is_space x"
    and rn: "rename_property name = name"
    and b1: "takeWhile is_space body = []" and b4: "takeWhile is_space (rev body) = []"
  shows "convert_decl (name @ '': '' @ body) =
           (if value_rule name (components body) = components body then name @ '': '' @ body
            else name @ '': '' @ join '' '' (value_rule name (components body)))"
proof -
  have sp: "is_space CHR '' ''" by (simp add: is_space_def)
  have dw: "dropWhile (\<lambda>c. c \<noteq> CHR '':'') (name @ '': '' @ body) = CHR '':'' # CHR '' '' # body"
    using nm by (simp add: dropWhile_append3)
  have tw: "takeWhile (\<lambda>c. c \<noteq> CHR '':'') (name @ '': '' @ body) = name"
    using nm by (simp add: takeWhile_tail)
  have n1: "takeWhile is_space name = []" "dropWhile is_space name = name"
    using nm nne by (cases name; simp)+
  have n2: "takeWhile (\<lambda>c. \<not> is_space c) name = name" "dropWhile (\<lambda>c. \<not> is_space c) name = []"
    using nm by (simp_all add: takeWhile_eq_all_conv dropWhile_eq_Nil_conv)
  have b2: "dropWhile is_space body = body"
    using b1 by (metis takeWhile_dropWhile_id append_Nil)
  have b3: "takeWhile is_space (CHR '' '' # body) = '' ''" "dropWhile is_space (CHR '' '' # body) = body"
    using sp b1 b2 by simp_all
  show ?thesis
    unfolding convert_decl_def dw list.case Let_def tw n1 n2 b3 b4 rn
    by simp
qed

lemma box_names:
  assumes "name \<in> set box_properties"
  shows "name \<noteq> []" and "\<forall>x\<in>set name. x \<noteq> CHR '':'' \<and> \<not> is_space x"
    and "rename_property name = name"
    and "\<forall>x\<in>set name. x \<noteq> CHR 0x7B \<and> x \<noteq> CHR '';'' \<and> x \<noteq> CHR 0x7D"
proof -
  from assms have c: "name = ''margin'' \<or> name = ''padding'' \<or> name = ''border-width''"
    by (simp add: box_properties_def)
  have r: "rename_property ''margin'' = ''margin''" "rename_property ''padding'' = ''padding''"
    "rename_property ''border-width'' = ''border-width''"
    by (simp_all add: rename_property_def segments_def seg_step_def swap_lr_def)
  from c show "name \<noteq> []" by auto
  from c show "\<forall>x\<in>set name. x \<noteq> CHR '':'' \<and> \<not> is_space x"
    by (elim disjE) (simp_all add: is_space_def)
  from c r show "rename_property name = name" by (elim disjE) simp_all
  from c show "\<forall>x\<in>set name. x \<noteq> CHR 0x7B \<and> x \<noteq> CHR '';'' \<and> x \<noteq> CHR 0x7D"
    by (elim disjE) simp_all
qed

lemma convert_box:
  assumes "name \<in> set box_properties" "plain a" "plain b" "plain c" "plain d"
  shows "convert_decl (name @ '': '' @ a @ '' '' @ b @ '' '' @ c @ '' '' @ d)
           = name @ '': '' @ a @ '' '' @ d @ '' '' @ c @ '' '' @ b"
proof -
  let ?body = "a @ '' '' @ b @ '' '' @ c @ '' '' @ d"
  have b1: "takeWhile is_space ?body = []"
    using takeWhile_space_token[of a] plain_nospace[OF assms(2)] by simp
  have "rev ?body = rev d @ (CHR '' '' # rev c @ CHR '' '' # rev b @ CHR '' '' # rev a)" by simp
  moreover have "rev d \<noteq> [] \<and> (\<forall>x\<in>set (rev d). \<not> is_space x)"
    using plain_nospace[OF assms(5)] by simp
  ultimately have b4: "takeWhile is_space (rev ?body) = []"
    using takeWhile_space_token[of "rev d"] by simp
  have cs: "components ?body = [a, b, c, d]" by (rule components_four[OF assms(2-5)])
  have vr: "value_rule name [a, b, c, d] = [a, d, c, b]" using assms(1) by simp
  have "convert_decl (name @ '': '' @ ?body) =
           (if [a, d, c, b] = [a, b, c, d] then name @ '': '' @ ?body
            else name @ '': '' @ join '' '' [a, d, c, b])"
    using convert_decl_value[OF box_names(1-3)[OF assms(1)] b1 b4] by (simp only: cs vr)
  then show ?thesis by (cases "d = b") simp_all
qed

lemma box_reorder:
  assumes "name \<in> set box_properties" "plain a" "plain b" "plain c" "plain d"
  shows "rtlcss_process (name @ '': '' @ a @ '' '' @ b @ '' '' @ c @ '' '' @ d @ '';'')
           = name @ '': '' @ a @ '' '' @ d @ '' '' @ c @ '' '' @ b @ '';''"
proof -
  have "\<forall>x\<in>set name. x \<noteq> CHR 0x7B \<and> x \<noteq> CHR '';'' \<and> x \<noteq> CHR 0x7D"
    by (rule box_names(4)[OF assms(1)])
  then have "\<forall>x\<in>set (name @ '': '' @ a @ '' '' @ b @ '' '' @ c @ '' '' @ d).
               x \<noteq> CHR 0x7B \<and> x \<noteq> CHR '';'' \<and> x \<noteq> CHR 0x7D"
    using plain_nostruct[OF assms(2)] plain_nostruct[OF assms(3)]
      plain_nostruct[OF assms(4)] plain_nostruct[OF assms(5)] by (simp add: ball_Un)
  from scan_one_decl[OF this] convert_box[OF assms] show ?thesis by simp
qed

text \<open>
  Claim C10 (shorthand box reorder). For \<open>margin\<close>, \<open>padding\<close> and \<open>border-width\<close>
  with four components separated by one blank, \<open>ltrToRtl\<close> on a fresh cache returns
  the declaration with the second and fourth component exchanged: (top, right, bottom,
  left) becomes (top, left, bottom, right). The instance
  \<open>margin: 10px 20px 30px 40px;\<close> follows the theorem.
\<close>

theorem shorthand_box_reorder:
  assumes "name \<in> set box_properties" "plain t" "plain r" "plain b" "plain l"
  shows "converted_text (ltrToRtl node_env tm
            (css_request (name @ '': '' @ t @ '' '' @ r @ '' '' @ b @ '' '' @ l @ '';'')) fresh)
          = Some (name @ '': '' @ t @ '' '' @ l @ '' '' @ b @ '' '' @ r @ '';'')"
  using box_reorder[OF assms]
  by (simp add: converted_text_def ltrToRtl_def load_css_def css_request_def fresh_def new_cache_def
      get_def Let_def node_env_def)

theorem shorthand_box_reorder_witness:
  "converted_text (ltrToRtl node_env clock (css_request ''margin: 10px 20px 30px 40px;'') fresh)
     = Some ''margin: 10px 40px 30px 20px;''"
  using shorthand_box_reorder [of "''margin''" "''10px''" "''20px''" "''30px''" "''40px''" clock]
  by (simp add: box_properties_def plain_def is_space_def)

text \<open>
  Claim C1 (round trip), at an input where the code breaks it. \<open>ltrToRtl\<close> turns
  \<open>margin-left\<close> into \<open>margin-right\<close>. \<open>rtlToLtr\<close> first swaps the property name
  back with its own regular expressions and then hands the text to the same engine,
  which swaps it again: on \<open>margin-left\<close> and \<open>margin-right\<close> it is the identity, so
  neither round trip returns the original text.
\<close>

theorem round_trip_fails:
  "converted_text (ltrToRtl node_env clock (css_request ''.a { margin-left: 10px; }'') fresh)
     = Some ''.a { margin-right: 10px; }''
   \<and> converted_text (rtlToLtr node_env clock (css_request ''.a { margin-right: 10px; }'')
        (snd (ltrToRtl node_env clock (css_request ''.a { margin-left: 10px; }'') fresh)))
     = Some ''.a { margin-right: 10px; }''
   \<and> converted_text (rtlToLtr node_env clock (css_request ''.a { margin-left: 10px; }'') fresh)
     = Some ''.a { margin-left: 10px; }''"
proof -
  have e1: "rtlcss_process ''.a { margin-left: 10px; }'' = ''.a { margin-right: 10px; }''"
    by code_simp
  have e2: "rtlcss_process ''.a { margin-right: 10px; }'' = ''.a { margin-left: 10px; }''"
    by code_simp
  have p1: "preprocess ''.a { margin-right: 10px; }'' = ''.a { margin-left: 10px; }''"
    by code_simp
  have p2: "preprocess ''.a { margin-left: 10px; }'' = ''.a { margin-right: 10px; }''"
    by code_simp
  show ?thesis
    by (simp add: converted_text_def ltrToRtl_def rtlToLtr_def load_css_def css_request_def
        fresh_def new_cache_def get_def Let_def node_env_def e1 e2 p1 p2)
qed

end
